theory Spec2Isabelle
  imports Complex_Main "HOL-Library.Char_ord" "HOL-Library.List_Lexorder"
begin

section \<open>Data model\<close>

text \<open>
  An Item Summary is one element of the JSON array the listing endpoint returns. Only the
  keys \<open>process_commit\<close> reads are kept: \<open>commit["sha"]\<close>, \<open>commit["url"]\<close>,
  \<open>commit["html_url"]\<close>, \<open>commit["commit"]["author"]["name"]\<close>,
  \<open>commit["commit"]["author"]["date"]\<close>, \<open>commit["commit"]["message"]\<close> and
  \<open>commit["author"]\<close>, which is null (\<open>None\<close>) when the commit has no GitHub account
  attached and otherwise an object with a \<open>login\<close>.
\<close>

record gh_user =
  login :: string

record commit =
  sha :: string
  url :: string
  html_url :: string
  commit_author_name :: string
  commit_author_date :: string
  commit_message :: string
  author :: "gh_user option"

text \<open>
  An Item Detail, as far as \<open>save_commit_files\<close> reads it: the list under the key
  \<open>files\<close> and, for each entry, the values under \<open>filename\<close> and \<open>patch\<close>.
  \<open>None\<close> stands for a key that is missing.
\<close>

record changed_file =
  filename :: "string option"
  patch :: "string option"

record commit_detail =
  files :: "changed_file list option"

text \<open>The dictionary \<open>commit_info\<close> built by \<open>process_commit\<close>, one field per key.\<close>

record commit_info =
  Commit_URL :: string
  Author_Name :: string
  Author_URL :: string
  Commit_Date :: string
  Commit_Message :: string

text \<open>The attributes of \<open>GitHubCommitsFetcher\<close> fixed by \<open>__init__\<close>.\<close>

record fetcher =
  repo_owner :: string
  repo_name :: string
  per_page :: nat
  commit_hash_end :: "string option"
  save_files :: bool

text \<open>The attributes that change during a run: \<open>self.commits_info\<close> and \<open>self.processed_commits\<close>.\<close>

record progress =
  commits_info :: "commit_info list"
  processed_commits :: "string set"

text \<open>The files on disk, by path.\<close>

type_synonym files = "string \<rightharpoonup> string"

section \<open>Transport and runtime\<close>

text \<open>
  \<open>session.get\<close> either raises a \<open>requests.exceptions.RequestException\<close> (connection
  failure, or the retry budget of the mounted adapter exhausted) or returns a response.
  Of a response the code reads the status code, two headers and the decoded body;
  \<open>json = None\<close> stands for a body that \<open>response.json()\<close> cannot decode, which raises
  \<open>requests.exceptions.JSONDecodeError\<close>, a \<open>RequestException\<close>.
\<close>

record 'a response =
  status_code :: int
  headers :: "string \<rightharpoonup> string"
  json :: "'a option"

datatype 'a outcome = RequestException | Response "'a response"

text \<open>Exceptions that no \<open>except\<close> clause of the class catches.\<close>

datatype exn = KeyError | ValueError | OverflowError | OSError

datatype 'a result = Raised exn | Returned 'a

text \<open>
  What the class takes from Python and from the operating system:
  \<^item> \<open>py_int\<close>: \<open>int\<close> on a header string; \<open>None\<close> is a \<open>ValueError\<close>;
  \<^item> \<open>int_minus_float\<close>: the float \<open>reset_time - time.time()\<close>; \<open>None\<close> is the
    \<open>OverflowError\<close> of an integer too large for a float;
  \<^item> \<open>sleep_overflows\<close>: whether \<open>time.sleep\<close> raises \<open>OverflowError\<close> for a
    duration, being too long for its clock;
  \<^item> \<open>py_list\<close>: the order in which \<open>list\<close> enumerates a set of strings;
  \<^item> \<open>os_error\<close>: whether, with the files as they are, creating the directory or
    opening for writing the file of a path raises \<open>OSError\<close>;
  \<^item> \<open>json_dump_indent\<close>: the text \<open>json.dump(..., indent=4)\<close> writes for a detail.
\<close>

record runtime =
  py_int :: "string \<Rightarrow> int option"
  int_minus_float :: "int \<Rightarrow> real \<Rightarrow> real option"
  sleep_overflows :: "real \<Rightarrow> bool"
  py_list :: "string set \<Rightarrow> string list"
  os_error :: "files \<Rightarrow> string \<Rightarrow> bool"
  json_dump_indent :: "commit_detail \<Rightarrow> string"

text \<open>
  The two endpoints answer the \<open>i\<close>-th attempt of a logical request with an outcome,
  paired with the value \<open>time.time()\<close> has when \<open>handle_rate_limit\<close> inspects that
  outcome.
\<close>

record environment =
  rt :: runtime
  commits_api :: "nat \<Rightarrow> nat \<Rightarrow> nat \<Rightarrow> commit list outcome \<times> real"
  detail_api :: "string \<Rightarrow> nat \<Rightarrow> commit_detail outcome \<times> real"

section \<open>Rate limit governor\<close>

text \<open>
  \<open>handle_rate_limit\<close> returns its boolean together with the argument of
  \<open>time.sleep\<close>, \<open>None\<close> when \<open>time.sleep\<close> is not called. Times are the real
  numbers that the floats of the code denote.
\<close>

definition handle_rate_limit ::
  "runtime \<Rightarrow> 'a response \<Rightarrow> real \<Rightarrow> (bool \<times> real option) result" where
  "handle_rate_limit py response now =
     (if status_code response = 403 \<and> headers response ''X-RateLimit-Remaining'' \<noteq> None then
        (case py_int py (the (headers response ''X-RateLimit-Remaining'')) of
           None \<Rightarrow> Raised ValueError
         | Some remaining \<Rightarrow>
             if remaining = 0 then
               (case headers response ''X-RateLimit-Reset'' of
                  None \<Rightarrow> Raised KeyError
                | Some v \<Rightarrow>
                    (case py_int py v of
                       None \<Rightarrow> Raised ValueError
                     | Some reset_time \<Rightarrow>
                         (case int_minus_float py reset_time now of
                            None \<Rightarrow> Raised OverflowError
                          | Some sleep_time \<Rightarrow>
                              if sleep_time > 0 then
                                (if sleep_overflows py sleep_time then Raised OverflowError
                                 else Returned (True, Some sleep_time))
                              else Returned (True, None))))
             else Returned (False, None))
      else Returned (False, None))"

section \<open>The request loops\<close>

text \<open>
  \<open>fetch_commits\<close> and \<open>fetch_commit_details\<close> run the same \<open>while True\<close> loop around
  one GET. \<open>request_loop py srv i\<close> is that loop from its \<open>i\<close>-th iteration on;
  the value \<open>None\<close> says that the loop never returns. \<open>raise_for_status\<close> raises an
  \<open>HTTPError\<close> for the status codes 400 to 599.
\<close>

partial_function (option) request_loop ::
  "runtime \<Rightarrow> (nat \<Rightarrow> 'a outcome \<times> real) \<Rightarrow> nat \<Rightarrow> 'a option result option" where
  "request_loop py srv i =
     (case fst (srv i) of
        RequestException \<Rightarrow> Some (Returned None)
      | Response response \<Rightarrow>
          (case handle_rate_limit py response (snd (srv i)) of
             Raised e \<Rightarrow> Some (Raised e)
           | Returned limited \<Rightarrow>
               if fst limited then request_loop py srv (Suc i)
               else if 400 \<le> status_code response \<and> status_code response < 600 then
                 (if status_code response = 403 then request_loop py srv (Suc i)
                  else Some (Returned None))
               else (case json response of
                       None \<Rightarrow> Some (Returned None)
                     | Some v \<Rightarrow> Some (Returned (Some v)))))"

declare request_loop.simps [code]

definition fetch_commits ::
  "fetcher \<Rightarrow> environment \<Rightarrow> nat \<Rightarrow> commit list option result option" where
  "fetch_commits self env page =
     request_loop (rt env) (commits_api env (per_page self) page) 0"

definition fetch_commit_details ::
  "environment \<Rightarrow> commit \<Rightarrow> commit_detail option result option" where
  "fetch_commit_details env c = request_loop (rt env) (detail_api env (url c)) 0"

section \<open>Saving the files of a commit\<close>

text \<open>
  \<open>os.path.join\<close> of two components, \<open>filename.replace("/", "_")\<close> and \<open>str\<close> of a
  natural number.
\<close>

definition path_join :: "string \<Rightarrow> string \<Rightarrow> string" where
  "path_join a b =
     (if b \<noteq> [] \<and> hd b = CHR ''/'' then b
      else if a = [] \<or> last a = CHR ''/'' then a @ b
      else a @ ''/'' @ b)"

definition replace_slash :: "string \<Rightarrow> string" where
  "replace_slash s = map (\<lambda>c. if c = CHR ''/'' then CHR ''_'' else c) s"

fun str_nat :: "nat \<Rightarrow> string" where
  "str_nat n =
     (if n < 10 then [char_of (48 + n)]
      else str_nat (n div 10) @ [char_of (48 + n mod 10)])"

declare str_nat.simps [simp del]

definition commit_content_dir :: "fetcher \<Rightarrow> string" where
  "commit_content_dir self = repo_owner self @ ''_'' @ repo_name self @ ''_commit_contents''"

text \<open>
  The \<open>for\<close> loop of \<open>save_commit_files\<close>. The result is the exception that ended
  it, if any, and the files as it left them.
\<close>

fun write_patches ::
  "runtime \<Rightarrow> string \<Rightarrow> changed_file list \<Rightarrow> files \<Rightarrow> exn option \<times> files" where
  "write_patches py commit_dir [] disk = (None, disk)"
| "write_patches py commit_dir (file # rest) disk =
     (case filename file of
        None \<Rightarrow> (Some KeyError, disk)
      | Some name \<Rightarrow>
          (let file_path = path_join commit_dir (replace_slash name) in
           if os_error py disk file_path then (Some OSError, disk)
           else write_patches py commit_dir rest
                  (disk(file_path \<mapsto> (case patch file of None \<Rightarrow> [] | Some p \<Rightarrow> p)))))"

text \<open>
  \<open>position\<close> is \<open>len(self.commits_info)\<close> as \<open>save_commit_files\<close> finds it.
\<close>

definition save_commit_files ::
  "fetcher \<Rightarrow> runtime \<Rightarrow> nat \<Rightarrow> string \<Rightarrow> commit_detail \<Rightarrow> files \<Rightarrow> exn option \<times> files" where
  "save_commit_files self py position commit_hash commit_detail_data disk =
     (let commit_dir =
            path_join (commit_content_dir self)
              (repo_owner self @ ''_'' @ repo_name self @ ''_'' @ str_nat (position + 1) @
               ''-'' @ commit_hash)
      in if os_error py disk commit_dir then (Some OSError, disk)
         else
           (case files commit_detail_data of
              None \<Rightarrow> (Some KeyError, disk)
            | Some changed \<Rightarrow>
                (case write_patches py commit_dir changed disk of
                   (Some e, disk') \<Rightarrow> (Some e, disk')
                 | (None, disk') \<Rightarrow>
                     (let commit_info_path = path_join commit_dir ''commit_info.json'' in
                      if os_error py disk' commit_info_path then (Some OSError, disk')
                      else (None,
                            disk'(commit_info_path \<mapsto> json_dump_indent py commit_detail_data))))))"

section \<open>Processing one commit\<close>

text \<open>
  \<open>process_commit\<close> reads two attributes that the main thread changes meanwhile:
  \<open>self.processed_commits\<close> at its first test, and \<open>len(self.commits_info)\<close> inside
  \<open>save_commit_files\<close>, after the detail fetch. What it finds there are the arguments
  \<open>processed\<close> and \<open>position\<close>. The result is what it returns or raises, with the
  files as it leaves them; it is \<open>None\<close> when the detail fetch never returns. A
  detail that was fetched is a JSON object with keys, true in a test.
\<close>

definition author_url_of :: "commit \<Rightarrow> string" where
  "author_url_of c =
     (case author c of
        Some u \<Rightarrow> ''https://github.com/'' @ login u
      | None \<Rightarrow> ''N/A'')"

definition commit_info_of :: "commit \<Rightarrow> commit_info" where
  "commit_info_of c =
     \<lparr>Commit_URL = html_url c,
      Author_Name = commit_author_name c,
      Author_URL = author_url_of c,
      Commit_Date = commit_author_date c,
      Commit_Message = commit_message c\<rparr>"

definition process_commit ::
  "fetcher \<Rightarrow> environment \<Rightarrow> string set \<Rightarrow> nat \<Rightarrow> files \<Rightarrow> commit
     \<Rightarrow> (commit_info option result \<times> files) option" where
  "process_commit self env processed position disk c =
     (let commit_hash = sha c in
      if commit_hash \<in> processed then Some (Returned None, disk)
      else
        (case fetch_commit_details env c of
           None \<Rightarrow> None
         | Some (Raised e) \<Rightarrow> Some (Raised e, disk)
         | Some (Returned commit_detail_data) \<Rightarrow>
             (case commit_detail_data of
                Some detail \<Rightarrow>
                  if save_files self then
                    (case save_commit_files self (rt env) position commit_hash detail disk of
                       (Some e, disk') \<Rightarrow> Some (Raised e, disk')
                     | (None, disk') \<Rightarrow> Some (Returned (Some (commit_info_of c)), disk'))
                  else Some (Returned (Some (commit_info_of c)), disk)
              | None \<Rightarrow> Some (Returned (Some (commit_info_of c)), disk))))"

section \<open>Merging a result\<close>

text \<open>\<open>s.split(sep)\<close> for a one-character separator; the result is never empty.\<close>

fun split_from :: "char \<Rightarrow> string \<Rightarrow> string \<Rightarrow> string list" where
  "split_from sep cur [] = [cur]"
| "split_from sep cur (c # cs) =
     (if c = sep then cur # split_from sep [] cs else split_from sep (cur @ [c]) cs)"

definition split :: "string \<Rightarrow> char \<Rightarrow> string list" where
  "split s sep = split_from sep [] s"

text \<open>The body of the \<open>as_completed\<close> loop for one future that returned.\<close>

definition merge_result :: "progress \<Rightarrow> commit_info option \<Rightarrow> progress" where
  "merge_result st r =
     (case r of
        None \<Rightarrow> st
      | Some ci \<Rightarrow>
          (let commit_hash = last (split (Commit_URL ci) (CHR ''/''))
           in st\<lparr>commits_info := commits_info st @ [ci],
                 processed_commits := insert commit_hash (processed_commits st)\<rparr>))"

section \<open>One page under the thread pool\<close>

text \<open>
  For a page \<open>process_commits\<close> submits one \<open>process_commit\<close> per commit to a pool of
  five workers and merges the results in the main thread, in completion order. The
  workers read the attributes of the main thread while it changes them, so what a page
  does depends on the interleaving. A schedule lists, in the order they happen,
  \<^item> \<open>Run i\<close>: the worker of the \<open>i\<close>-th commit makes its first test, reading
    \<open>self.processed_commits\<close>;
  \<^item> \<open>Finish i\<close>: that worker does the rest of \<open>process_commit\<close>, the detail fetch
    and \<open>save_commit_files\<close>, which reads \<open>len(self.commits_info)\<close>, and its future
    completes; a worker whose detail fetch never returns never finishes;
  \<^item> \<open>Collect i\<close>: \<open>as_completed\<close> hands the \<open>i\<close>-th future to the main thread.
  An exception that \<open>future.result()\<close> re-raises ends the merging; the workers go on.
\<close>

datatype sched_event = Run nat | Finish nat | Collect nat

record page_state =
  state :: progress
  disk :: files
  seen :: "nat \<rightharpoonup> string set"
  finished :: "nat \<rightharpoonup> commit_info option result"
  collected :: "nat list"
  reraised :: "exn option"

fun page_step ::
  "fetcher \<Rightarrow> environment \<Rightarrow> commit list \<Rightarrow> page_state \<Rightarrow> sched_event \<Rightarrow> page_state" where
  "page_step self env commits_data ps (Run i) =
     (if i < length commits_data \<and> seen ps i = None then
        ps\<lparr>seen := (seen ps)(i \<mapsto> processed_commits (state ps))\<rparr>
      else ps)"
| "page_step self env commits_data ps (Finish i) =
     (case seen ps i of
        None \<Rightarrow> ps
      | Some processed \<Rightarrow>
          if finished ps i \<noteq> None then ps
          else
            (case process_commit self env processed (length (commits_info (state ps)))
                    (disk ps) (commits_data ! i) of
               None \<Rightarrow> ps
             | Some (r, disk') \<Rightarrow> ps\<lparr>disk := disk', finished := (finished ps)(i \<mapsto> r)\<rparr>))"
| "page_step self env commits_data ps (Collect i) =
     (if reraised ps = None \<and> i \<notin> set (collected ps) then
        (case finished ps i of
           None \<Rightarrow> ps
         | Some (Raised e) \<Rightarrow> ps\<lparr>reraised := Some e\<rparr>
         | Some (Returned r) \<Rightarrow>
             ps\<lparr>state := merge_result (state ps) r, collected := collected ps @ [i]\<rparr>)
      else ps)"

definition run_page ::
  "fetcher \<Rightarrow> environment \<Rightarrow> commit list \<Rightarrow> sched_event list \<Rightarrow> progress \<Rightarrow> files
     \<Rightarrow> page_state" where
  "run_page self env commits_data sched st fs =
     foldl (page_step self env commits_data)
       \<lparr>state = st, disk = fs, seen = Map.empty, finished = Map.empty, collected = [],
        reraised = None\<rparr> sched"

text \<open>
  The \<open>with\<close> block is left normally once every future has been collected. It is left
  by a re-raised exception once every worker has finished, for the executor waits for
  them. Otherwise the main thread still waits.
\<close>

datatype page_end = Page_done | Page_raised exn | Page_waiting

definition page_end_of :: "commit list \<Rightarrow> page_state \<Rightarrow> page_end" where
  "page_end_of commits_data ps =
     (case reraised ps of
        Some e \<Rightarrow>
          if list_all (\<lambda>i. finished ps i \<noteq> None) [0..<length commits_data] then Page_raised e
          else Page_waiting
      | None \<Rightarrow>
          if list_all (\<lambda>i. i \<in> set (collected ps)) [0..<length commits_data] then Page_done
          else Page_waiting)"

text \<open>
  A schedule serves a page of \<open>n\<close> commits when each of the \<open>n\<close> workers is run,
  finishes later and has its future collected after that. The second argument of
  \<open>collects\<close> counts the stages the worker has passed.
\<close>

fun collects :: "nat \<Rightarrow> nat \<Rightarrow> sched_event list \<Rightarrow> bool" where
  "collects i k [] = False"
| "collects i k (Run j # sched) = collects i (if i = j \<and> k = 0 then 1 else k) sched"
| "collects i k (Finish j # sched) = collects i (if i = j \<and> k = 1 then 2 else k) sched"
| "collects i k (Collect j # sched) = ((i = j \<and> k = 2) \<or> collects i k sched)"

definition serves :: "nat \<Rightarrow> sched_event list \<Rightarrow> bool" where
  "serves n sched = list_all (\<lambda>i. collects i 0 sched) [0..<n]"

section \<open>The progress file\<close>

text \<open>
  \<open>json.dump\<close> with its default settings, for the one shape \<open>save_progress\<close> writes:
  items are separated by a comma and a space, keys from values by a colon and a space,
  and inside a string the quote, the backslash and every character outside the
  printable ASCII range are escaped. A \<open>char\<close> stands for the code point of the same
  number.
\<close>

definition hex4 :: "nat \<Rightarrow> string" where
  "hex4 n = map (\<lambda>k. ''0123456789abcdef'' ! ((n div 16 ^ k) mod 16)) [3, 2, 1, 0]"

definition escape_char :: "char \<Rightarrow> string" where
  "escape_char c =
     (if c = CHR 0x22 then [CHR 0x5C, CHR 0x22]
      else if c = CHR 0x5C then [CHR 0x5C, CHR 0x5C]
      else if c = CHR 0x0A then [CHR 0x5C, CHR ''n'']
      else if c = CHR 0x0D then [CHR 0x5C, CHR ''r'']
      else if c = CHR 0x09 then [CHR 0x5C, CHR ''t'']
      else if c = CHR 0x08 then [CHR 0x5C, CHR ''b'']
      else if c = CHR 0x0C then [CHR 0x5C, CHR ''f'']
      else if 32 \<le> (of_char c :: nat) \<and> (of_char c :: nat) \<le> 126 then [c]
      else [CHR 0x5C, CHR ''u''] @ hex4 (of_char c))"

definition json_string :: "string \<Rightarrow> string" where
  "json_string s = [CHR 0x22] @ concat (map escape_char s) @ [CHR 0x22]"

fun comma_separated :: "string list \<Rightarrow> string" where
  "comma_separated [] = []"
| "comma_separated [x] = x"
| "comma_separated (x # y # ys) = x @ '', '' @ comma_separated (y # ys)"

definition json_array :: "string list \<Rightarrow> string" where
  "json_array items = ''['' @ comma_separated items @ '']''"

definition json_object :: "(string \<times> string) list \<Rightarrow> string" where
  "json_object members =
     ''{'' @ comma_separated (map (\<lambda>(k, v). json_string k @ '': '' @ v) members) @ ''}''"

definition json_commit_info :: "commit_info \<Rightarrow> string" where
  "json_commit_info ci =
     json_object
       [(''Commit URL'', json_string (Commit_URL ci)),
        (''Author Name'', json_string (Author_Name ci)),
        (''Author URL'', json_string (Author_URL ci)),
        (''Commit Date'', json_string (Commit_Date ci)),
        (''Commit Message'', json_string (Commit_Message ci))]"

definition json_dump_progress :: "commit_info list \<Rightarrow> string list \<Rightarrow> string" where
  "json_dump_progress infos ids =
     json_object
       [(''commits_info'', json_array (map json_commit_info infos)),
        (''processed_commits'', json_array (map json_string ids))]"

text \<open>
  \<open>save_progress\<close> opens the progress file for writing, which empties it, and dumps
  the state into it. When the file cannot be opened the \<open>OSError\<close> goes on to the
  caller and the files stay as they are.
\<close>

definition progress_file :: "fetcher \<Rightarrow> string" where
  "progress_file self = repo_owner self @ ''_'' @ repo_name self @ ''_progress.json''"

definition save_progress :: "fetcher \<Rightarrow> runtime \<Rightarrow> progress \<Rightarrow> files \<Rightarrow> files result" where
  "save_progress self py st fs =
     (if os_error py fs (progress_file self) then Raised OSError
      else Returned
             (fs(progress_file self \<mapsto>
                   json_dump_progress (commits_info st) (py_list py (processed_commits st)))))"

text \<open>
  A process that dies during \<open>save_progress\<close> dies before \<open>open\<close>, or after \<open>open\<close>
  has emptied the file and some first \<open>n\<close> characters of the text have reached it
  (all of them when \<open>n\<close> is at least the length of the text).
\<close>

datatype crash_point = Before_open | After_open nat

definition save_progress_crash ::
  "crash_point \<Rightarrow> fetcher \<Rightarrow> runtime \<Rightarrow> progress \<Rightarrow> files \<Rightarrow> files" where
  "save_progress_crash cp self py st fs =
     (case cp of
        Before_open \<Rightarrow> fs
      | After_open n \<Rightarrow>
          fs(progress_file self \<mapsto>
               take n (json_dump_progress (commits_info st) (py_list py (processed_commits st)))))"

text \<open>
  \<open>load_progress\<close> reads the progress file when it exists. \<open>json.load\<close> is the
  argument \<open>json_load\<close>: it yields what \<open>progress_data.get\<close> finds under the two
  keys, or nothing for a text that is no JSON document, which raises a
  \<open>JSONDecodeError\<close>, a \<open>ValueError\<close>. Without a file \<open>commits_info\<close> keeps the
  empty list \<open>__init__\<close> gave it.
\<close>

definition load_progress ::
  "(string \<Rightarrow> (commit_info list option \<times> string list option) option) \<Rightarrow> fetcher \<Rightarrow> files
     \<Rightarrow> progress result" where
  "load_progress json_load self fs =
     (case fs (progress_file self) of
        None \<Rightarrow> Returned \<lparr>commits_info = [], processed_commits = {}\<rparr>
      | Some text \<Rightarrow>
          (case json_load text of
             None \<Rightarrow> Raised ValueError
           | Some progress_data \<Rightarrow>
               Returned
                 \<lparr>commits_info = (case fst progress_data of None \<Rightarrow> [] | Some infos \<Rightarrow> infos),
                  processed_commits =
                    set (case snd progress_data of None \<Rightarrow> [] | Some ids \<Rightarrow> ids)\<rparr>))"

section \<open>The pagination driver\<close>

text \<open>
  The observable steps of \<open>process_commits\<close>: the listing request for a page, with the
  files as they are when it is sent; the end of the \<open>with\<close> block of a page, with the
  futures collected, in order, and the state in memory at that moment; the return of
  \<open>save_progress\<close>, with the state it has written; and \<open>time.sleep(6)\<close>.
\<close>

datatype log_event =
  Fetch_listing nat files
| Page_merged nat "nat list" progress
| Save_progress progress
| Sleep nat

datatype run_end = Finished | Crashed exn | Never_returns | Out_of_fuel

text \<open>\<open>self.commit_hash_end and any(commit["sha"] == self.commit_hash_end ...)\<close>.\<close>

definition stop_found :: "fetcher \<Rightarrow> commit list \<Rightarrow> bool" where
  "stop_found self commits_data =
     (case commit_hash_end self of
        None \<Rightarrow> False
      | Some h \<Rightarrow> h \<noteq> [] \<and> h \<in> set (map sha commits_data))"

text \<open>
  The \<open>while\<close> loop from the iteration that requests \<open>page\<close> on, with the state in
  memory and the files on disk. The loop has no bound of its own, so the first
  argument counts the iterations it may still make; a run cut off there ends in
  \<open>Out_of_fuel\<close> with the steps made so far. \<open>sched page\<close> is the schedule of the
  workers of that page.
\<close>

fun process_commits_from ::
  "nat \<Rightarrow> fetcher \<Rightarrow> environment \<Rightarrow> (nat \<Rightarrow> sched_event list) \<Rightarrow> nat \<Rightarrow> progress \<Rightarrow> files
     \<Rightarrow> run_end \<times> log_event list \<times> progress \<times> files" where
  "process_commits_from 0 self env sched page st fs = (Out_of_fuel, [], st, fs)"
| "process_commits_from (Suc fuel) self env sched page st fs =
     (case fetch_commits self env page of
        None \<Rightarrow> (Never_returns, [Fetch_listing page fs], st, fs)
      | Some (Raised e) \<Rightarrow> (Crashed e, [Fetch_listing page fs], st, fs)
      | Some (Returned None) \<Rightarrow> (Finished, [Fetch_listing page fs], st, fs)
      | Some (Returned (Some commits_data)) \<Rightarrow>
          if commits_data = [] then (Finished, [Fetch_listing page fs], st, fs)
          else
            (let ps = run_page self env commits_data (sched page) st fs in
             case page_end_of commits_data ps of
               Page_raised e \<Rightarrow> (Crashed e, [Fetch_listing page fs], state ps, disk ps)
             | Page_waiting \<Rightarrow> (Never_returns, [Fetch_listing page fs], state ps, disk ps)
             | Page_done \<Rightarrow>
                 (case save_progress self (rt env) (state ps) (disk ps) of
                    Raised e \<Rightarrow>
                      (Crashed e,
                       [Fetch_listing page fs, Page_merged page (collected ps) (state ps)],
                       state ps, disk ps)
                  | Returned fs' \<Rightarrow>
                      (let steps = [Fetch_listing page fs,
                                    Page_merged page (collected ps) (state ps),
                                    Save_progress (state ps), Sleep 6]
                       in if stop_found self commits_data then (Finished, steps, state ps, fs')
                          else
                            (case process_commits_from fuel self env sched (Suc page)
                                    (state ps) fs' of
                               (e, later, rest) \<Rightarrow> (e, steps @ later, rest))))))"

definition process_commits ::
  "nat \<Rightarrow> fetcher \<Rightarrow> environment \<Rightarrow> (nat \<Rightarrow> sched_event list) \<Rightarrow> progress \<Rightarrow> files
     \<Rightarrow> run_end \<times> log_event list \<times> progress \<times> files" where
  "process_commits fuel self env sched st fs =
     process_commits_from fuel self env sched 1 st fs"

fun fetched_pages :: "log_event list \<Rightarrow> nat list" where
  "fetched_pages [] = []"
| "fetched_pages (Fetch_listing n fs # steps) = n # fetched_pages steps"
| "fetched_pages (_ # steps) = fetched_pages steps"

section \<open>Notions of the specification\<close>

text \<open>The final segment of a string cut at each \<open>/\<close>: what follows its last \<open>/\<close>.\<close>

definition final_segment :: "string \<Rightarrow> string" where
  "final_segment s = rev (takeWhile (\<lambda>c. c \<noteq> CHR ''/'') (rev s))"

text \<open>The identifier under which a record is entered in \<open>processed_commits\<close>.\<close>

definition identifier_of :: "commit_info \<Rightarrow> string" where
  "identifier_of ci = last (split (Commit_URL ci) (CHR ''/''))"

text \<open>
  No orphans: the processed identifiers are those of the records. The invariant of
  the Progress State asks in addition that no two records share an identifier.
\<close>

definition no_orphans :: "progress \<Rightarrow> bool" where
  "no_orphans st = (processed_commits st = set (map identifier_of (commits_info st)))"

definition progress_invariant :: "progress \<Rightarrow> bool" where
  "progress_invariant st = (no_orphans st \<and> distinct (map identifier_of (commits_info st)))"

text \<open>
  A commit is merged into a state when its record is among the records or its sha among
  the processed identifiers. A state grows into another when it loses no record and no
  identifier. The text of a checkpoint of a state.
\<close>

definition merged_in :: "commit \<Rightarrow> progress \<Rightarrow> bool" where
  "merged_in c st =
     (commit_info_of c \<in> set (commits_info st) \<or> sha c \<in> processed_commits st)"

definition grows :: "progress \<Rightarrow> progress \<Rightarrow> bool" where
  "grows st st' =
     (set (commits_info st) \<subseteq> set (commits_info st') \<and>
      processed_commits st \<subseteq> processed_commits st')"

definition checkpoint_text :: "runtime \<Rightarrow> progress \<Rightarrow> string" where
  "checkpoint_text py st =
     json_dump_progress (commits_info st) (py_list py (processed_commits st))"

text \<open>
  While a page is under way: a worker is run only for a commit of the page; a worker that
  has not been collected and finds its sha processed now found it processed at its
  test; a finished worker that returned a record holds the record of its own commit and
  did not find its sha processed.
\<close>

definition pending_fresh :: "commit list \<Rightarrow> page_state \<Rightarrow> bool" where
  "pending_fresh cs ps =
     ((\<forall>i S. seen ps i = Some S \<longrightarrow> i < length cs) \<and>
      (\<forall>i S. seen ps i = Some S \<longrightarrow> i \<notin> set (collected ps) \<longrightarrow>
         sha (cs ! i) \<in> processed_commits (state ps) \<longrightarrow> sha (cs ! i) \<in> S) \<and>
      (\<forall>i r. finished ps i = Some (Returned (Some r)) \<longrightarrow>
         r = commit_info_of (cs ! i) \<and> (\<exists>S. seen ps i = Some S \<and> sha (cs ! i) \<notin> S)))"

text \<open>
  What a page has merged so far: the sets the workers saw are within the processed
  identifiers; a finished worker returned the record of its commit, or nothing after
  finding its sha processed; every collected commit is merged; and the state has grown
  from the state \<open>st\<close> at the start of the page.
\<close>

definition page_merging :: "commit list \<Rightarrow> progress \<Rightarrow> page_state \<Rightarrow> bool" where
  "page_merging cs st ps =
     ((\<forall>i S. seen ps i = Some S \<longrightarrow> i < length cs \<and> S \<subseteq> processed_commits (state ps)) \<and>
      (\<forall>i r. finished ps i = Some (Returned r) \<longrightarrow>
         (\<exists>S. seen ps i = Some S \<and>
              (case r of None \<Rightarrow> sha (cs ! i) \<in> S | Some info \<Rightarrow> info = commit_info_of (cs ! i)))) \<and>
      (\<forall>i\<in>set (collected ps). i < length cs \<and> merged_in (cs ! i) (state ps)) \<and>
      grows st (state ps))"

text \<open>
  A worker returns when \<open>process_commit\<close> returns a value for its commit, whatever it
  finds in the attributes and on disk. While a page is under way with such workers:
  none has raised, each one run is the worker of a commit of the page, and a finished
  one was run before and has returned.
\<close>

definition worker_returns :: "fetcher \<Rightarrow> environment \<Rightarrow> commit \<Rightarrow> bool" where
  "worker_returns self env c =
     (\<forall>processed position fs. \<exists>r fs'.
        process_commit self env processed position fs c = Some (Returned r, fs'))"

definition workers_returned :: "commit list \<Rightarrow> page_state \<Rightarrow> bool" where
  "workers_returned cs ps =
     (reraised ps = None \<and>
      (\<forall>j S. seen ps j = Some S \<longrightarrow> j < length cs) \<and>
      (\<forall>j r. finished ps j = Some r \<longrightarrow> seen ps j \<noteq> None \<and> (\<exists>v. r = Returned v)))"

text \<open>The stage a worker has passed: run, finished.\<close>

definition stage :: "page_state \<Rightarrow> nat \<Rightarrow> nat" where
  "stage ps i = (if finished ps i \<noteq> None then 2 else if seen ps i \<noteq> None then 1 else 0)"

text \<open>
  A log in rounds from page \<open>q\<close> on, for a run that starts there with the state \<open>st\<close>
  and the files \<open>fs\<close>. A round is the listing request, the merge of every commit of
  the listing into a state grown from the one before, \<open>save_progress\<close> of that
  state, and the pause. The log may end with a lone listing request, or
  with a listing request and a merge.
\<close>

inductive rounds_from ::
  "fetcher \<Rightarrow> environment \<Rightarrow> nat \<Rightarrow> progress \<Rightarrow> files \<Rightarrow> log_event list \<Rightarrow> bool"
  for self :: fetcher and env :: environment where
  no_round: "rounds_from self env q st fs []"
| last_fetch: "rounds_from self env q st fs [Fetch_listing q fs]"
| last_merge: "rounds_from self env q st fs [Fetch_listing q fs, Page_merged q got st1]"
| round:
    "\<lbrakk>fetch_commits self env q = Some (Returned (Some cs));
      \<forall>c\<in>set cs. merged_in c st1; grows st st1;
      save_progress self (rt env) st1 fs0 = Returned fs1;
      rounds_from self env (Suc q) st1 fs1 later\<rbrakk>
     \<Longrightarrow> rounds_from self env q st fs
           (Fetch_listing q fs # Page_merged q got st1 # Save_progress st1 # Sleep 6 # later)"

text \<open>
  One iteration of the request loop, seen from outside: whether it ends in
  \<open>continue\<close>, and what the loop returns or raises when it does not.
\<close>

definition retries :: "runtime \<Rightarrow> 'a outcome \<times> real \<Rightarrow> bool" where
  "retries py x =
     (case fst x of
        RequestException \<Rightarrow> False
      | Response response \<Rightarrow>
          (case handle_rate_limit py response (snd x) of
             Raised e \<Rightarrow> False
           | Returned limited \<Rightarrow> fst limited \<or> status_code response = 403))"

definition answer :: "runtime \<Rightarrow> 'a outcome \<times> real \<Rightarrow> 'a option result" where
  "answer py x =
     (case fst x of
        RequestException \<Rightarrow> Returned None
      | Response response \<Rightarrow>
          (case handle_rate_limit py response (snd x) of
             Raised e \<Rightarrow> Raised e
           | Returned limited \<Rightarrow>
               if 400 \<le> status_code response \<and> status_code response < 600 then Returned None
               else Returned (json response)))"

section \<open>A small repository\<close>

text \<open>\<open>int\<close> on a string of ASCII digits.\<close>

fun decimal_from :: "int \<Rightarrow> string \<Rightarrow> int option" where
  "decimal_from acc [] = Some acc"
| "decimal_from acc (c # cs) =
     (if 48 \<le> (of_char c :: nat) \<and> (of_char c :: nat) \<le> 57
      then decimal_from (10 * acc + (int (of_char c) - 48)) cs else None)"

definition decimal :: "string \<Rightarrow> int option" where
  "decimal s = (if s = [] then None else decimal_from 0 s)"

definition demo_commit :: "string \<Rightarrow> gh_user option \<Rightarrow> commit" where
  "demo_commit h who =
     \<lparr>sha = h,
      url = ''https://api.github.com/repos/octo/demo/commits/'' @ h,
      html_url = ''https://github.com/octo/demo/commit/'' @ h,
      commit_author_name = ''Ann'',
      commit_author_date = ''2024-05-01T10:00:00Z'',
      commit_message = ''fix'',
      author = who\<rparr>"

definition ann :: "gh_user option" where
  "ann = Some \<lparr>login = ''ann''\<rparr>"

text \<open>
  A runtime for the small repository: exact subtraction for integers within the range of
  a float, a sleep that overflows beyond the nanoseconds of 63 bits, sets enumerated in
  order, no failing file operation. No detail is ever dumped there.
\<close>

definition demo_runtime :: runtime where
  "demo_runtime =
     \<lparr>py_int = decimal,
      int_minus_float =
        (\<lambda>reset_time now. if \<bar>reset_time\<bar> < 2 ^ 1024 then Some (real_of_int reset_time - now)
                           else None),
      sleep_overflows = (\<lambda>d. d * 1000000000 > 9223372036854775807),
      py_list = sorted_list_of_set,
      os_error = (\<lambda>fs path. False),
      json_dump_indent = (\<lambda>detail. [])\<rparr>"

definition ok :: "'a \<Rightarrow> 'a outcome \<times> real" where
  "ok v = (Response \<lparr>status_code = 200, headers = Map.empty, json = Some v\<rparr>, 0)"

definition forbidden :: "'a outcome \<times> real" where
  "forbidden = (Response \<lparr>status_code = 403, headers = Map.empty, json = None\<rparr>, 0)"

definition quota_exhausted :: "unit response" where
  "quota_exhausted =
     \<lparr>status_code = 403,
      headers = [''X-RateLimit-Remaining'' \<mapsto> ''0'', ''X-RateLimit-Reset'' \<mapsto> ''1700000060''],
      json = None\<rparr>"

definition reset_missing :: "unit response" where
  "reset_missing =
     \<lparr>status_code = 403, headers = [''X-RateLimit-Remaining'' \<mapsto> ''0''], json = None\<rparr>"

text \<open>
  Two commits on each of the pages 1 and 2, one on every later page; the stop
  identifier is the first commit of page 2. The detail endpoint cannot be reached. In
  a second environment it answers 403 without end, in a third the listing does.
\<close>

definition demo_page :: "nat \<Rightarrow> commit list" where
  "demo_page n =
     (if n = 1 then [demo_commit ''a1'' ann, demo_commit ''b2'' None]
      else if n = 2 then [demo_commit ''c3'' ann, demo_commit ''d4'' ann]
      else [demo_commit ''e5'' ann])"

definition demo_env :: environment where
  "demo_env =
     \<lparr>rt = demo_runtime,
      commits_api = (\<lambda>count page attempt. ok (demo_page page)),
      detail_api = (\<lambda>address attempt. (RequestException, 0))\<rparr>"

definition stuck_env :: environment where
  "stuck_env =
     \<lparr>rt = demo_runtime,
      commits_api = (\<lambda>count page attempt. ok (demo_page page)),
      detail_api = (\<lambda>address attempt. forbidden)\<rparr>"

definition forbidden_env :: environment where
  "forbidden_env =
     \<lparr>rt = demo_runtime,
      commits_api = (\<lambda>count page attempt. forbidden),
      detail_api = (\<lambda>address attempt. forbidden)\<rparr>"

definition demo_fetcher :: fetcher where
  "demo_fetcher =
     \<lparr>repo_owner = ''octo'', repo_name = ''demo'', per_page = 2,
      commit_hash_end = Some ''c3'', save_files = True\<rparr>"

definition empty_progress :: progress where
  "empty_progress = \<lparr>commits_info = [], processed_commits = {}\<rparr>"

text \<open>The files after a first, complete checkpoint of the empty state.\<close>

definition first_checkpoint :: files where
  "first_checkpoint = [progress_file demo_fetcher \<mapsto> json_dump_progress [] []]"

definition one_commit_progress :: progress where
  "one_commit_progress =
     merge_result empty_progress (Some (commit_info_of (demo_commit ''a1'' ann)))"

text \<open>Both workers of a page make their test before either result is merged.\<close>

definition all_then_merge :: "nat \<Rightarrow> sched_event list" where
  "all_then_merge page = [Run 0, Run 1, Finish 0, Finish 1, Collect 0, Collect 1]"

text \<open>The states, the files and the log of the run on the small repository.\<close>

definition demo_state_1 :: progress where
  "demo_state_1 =
     \<lparr>commits_info = map commit_info_of (demo_page 1), processed_commits = {''a1'', ''b2''}\<rparr>"

definition demo_state_2 :: progress where
  "demo_state_2 =
     \<lparr>commits_info = map commit_info_of (demo_page 1 @ demo_page 2),
      processed_commits = {''a1'', ''b2'', ''c3'', ''d4''}\<rparr>"

definition demo_files_1 :: files where
  "demo_files_1 = [progress_file demo_fetcher \<mapsto> checkpoint_text demo_runtime demo_state_1]"

definition demo_files_2 :: files where
  "demo_files_2 = [progress_file demo_fetcher \<mapsto> checkpoint_text demo_runtime demo_state_2]"

definition demo_steps :: "log_event list" where
  "demo_steps =
     [Fetch_listing 1 Map.empty, Page_merged 1 [0, 1] demo_state_1,
      Save_progress demo_state_1, Sleep 6,
      Fetch_listing 2 demo_files_1, Page_merged 2 [0, 1] demo_state_2,
      Save_progress demo_state_2, Sleep 6]"

section \<open>Basic facts\<close>

subsection \<open>The final segment of a URL\<close>

lemma final_segment_Cons:
  "final_segment (c # cs) =
     (if CHR ''/'' \<in> set cs then final_segment cs else if c = CHR ''/'' then cs else c # cs)"
  by (auto simp: final_segment_def takeWhile_append)

lemma final_segment_plain: "CHR ''/'' \<notin> set s \<Longrightarrow> final_segment s = s"
proof -
  assume "CHR ''/'' \<notin> set s"
  then have h: "takeWhile (\<lambda>c. c \<noteq> CHR ''/'') (rev s) = rev s"
    by (intro takeWhile_eq_all_conv[THEN iffD2]) auto
  show ?thesis unfolding final_segment_def h by simp
qed

lemma final_segment_append:
  "CHR ''/'' \<notin> set s \<Longrightarrow> final_segment (p @ CHR ''/'' # s) = s"
  by (simp add: final_segment_def takeWhile_append)

lemma split_from_nonempty: "split_from sep cur s \<noteq> []"
  by (induction s arbitrary: cur) auto

lemma last_split_from:
  "last (split_from (CHR ''/'') cur s) =
     (if CHR ''/'' \<in> set s then final_segment s else cur @ s)"
proof (induction s arbitrary: cur)
  case Nil
  then show ?case by simp
next
  case (Cons c cs)
  then show ?case by (auto simp: final_segment_Cons split_from_nonempty)
qed

lemma last_split: "last (split s (CHR ''/'')) = final_segment s"
  by (simp add: split_def last_split_from final_segment_plain)

lemma identifier_of_commit_info_of [simp]:
  "identifier_of (commit_info_of c) = final_segment (html_url c)"
  by (simp add: identifier_of_def commit_info_of_def last_split)

subsection \<open>Merging and the skip test\<close>

lemma merge_result_Some:
  "merge_result st (Some ci) =
     st\<lparr>commits_info := commits_info st @ [ci],
        processed_commits := insert (identifier_of ci) (processed_commits st)\<rparr>"
  by (simp add: merge_result_def identifier_of_def Let_def)

lemma merge_result_None: "merge_result st None = st"
  by (simp add: merge_result_def)

lemma process_commit_Some:
  "process_commit self env processed position fs c = Some (Returned (Some r), fs') \<Longrightarrow>
     sha c \<notin> processed \<and> r = commit_info_of c"
  by (auto simp: process_commit_def Let_def
      split: if_splits option.splits result.splits prod.splits)

lemma process_commit_skip:
  "process_commit self env processed position fs c = Some (Returned None, fs') \<longleftrightarrow>
     sha c \<in> processed \<and> fs' = fs"
  by (auto simp: process_commit_def Let_def
      split: if_splits option.splits result.splits prod.splits)

lemma process_commit_no_detail:
  "fetch_commit_details env c = Some (Returned None) \<Longrightarrow> sha c \<notin> processed \<Longrightarrow>
     process_commit self env processed position fs c = Some (Returned (Some (commit_info_of c)), fs)"
  by (simp add: process_commit_def)

subsection \<open>The small repository\<close>

lemma sha_demo_commit: "sha (demo_commit h who) = h"
  by (simp add: demo_commit_def)

lemma final_segment_demo_commit:
  "CHR ''/'' \<notin> set h \<Longrightarrow> final_segment (html_url (demo_commit h who)) = h"
  using final_segment_append [of h "''https://github.com/octo/demo/commit''"]
  by (simp add: demo_commit_def)

lemma fetch_details_demo:
  "fetch_commit_details demo_env c = Some (Returned None)"
  by (simp add: fetch_commit_details_def demo_env_def request_loop.simps)

lemma process_commit_demo:
  "sha c \<notin> processed \<Longrightarrow>
     process_commit self demo_env processed position fs c =
       Some (Returned (Some (commit_info_of c)), fs)"
  by (simp add: process_commit_no_detail fetch_details_demo)

subsection \<open>The request loop\<close>

lemma request_loop_retry:
  assumes "retries py (srv i)"
  shows "request_loop py srv i = request_loop py srv (Suc i)"
proof (cases "fst (srv i)")
  case RequestException
  with assms show ?thesis by (simp add: retries_def)
next
  case (Response r)
  show ?thesis
  proof (cases "handle_rate_limit py r (snd (srv i))")
    case (Raised e)
    with Response assms show ?thesis by (simp add: retries_def)
  next
    case (Returned limited)
    with Response assms have "fst limited \<or> status_code r = 403" by (simp add: retries_def)
    with Response Returned show ?thesis by (subst request_loop.simps) auto
  qed
qed

lemma request_loop_answer:
  assumes "\<not> retries py (srv i)"
  shows "request_loop py srv i = Some (answer py (srv i))"
proof (cases "fst (srv i)")
  case RequestException
  then show ?thesis by (subst request_loop.simps) (simp add: answer_def)
next
  case (Response r)
  show ?thesis
  proof (cases "handle_rate_limit py r (snd (srv i))")
    case (Raised e)
    with Response show ?thesis by (subst request_loop.simps) (simp add: answer_def)
  next
    case (Returned limited)
    with Response assms have "\<not> fst limited" "status_code r \<noteq> 403" by (simp_all add: retries_def)
    with Response Returned show ?thesis
      by (subst request_loop.simps) (simp add: answer_def split: option.splits)
  qed
qed

lemma request_loop_returns:
  "\<lbrakk>\<forall>j. i \<le> j \<and> j < k \<longrightarrow> retries py (srv j); \<not> retries py (srv k); i \<le> k\<rbrakk>
     \<Longrightarrow> request_loop py srv i = Some (answer py (srv k))"
proof (induction "k - i" arbitrary: i)
  case 0
  then have "i = k" by simp
  with 0 show ?case by (simp add: request_loop_answer)
next
  case (Suc d)
  then have "retries py (srv i)" and "Suc i \<le> k" and "d = k - Suc i" by auto
  moreover have "\<forall>j. Suc i \<le> j \<and> j < k \<longrightarrow> retries py (srv j)" using Suc.prems by auto
  ultimately show ?case using Suc.hyps(1) [of "Suc i"] Suc.prems(2)
    by (simp add: request_loop_retry)
qed

lemma request_loop_returned_unretried:
  assumes "request_loop py srv i = Some y"
  shows "\<exists>k\<ge>i. \<not> retries py (srv k)"
proof (rule request_loop.raw_induct
    [where P = "\<lambda>f s i y. \<exists>k\<ge>i. \<not> retries f (s k)", OF _ assms])
  fix loop :: "runtime \<Rightarrow> (nat \<Rightarrow> 'a outcome \<times> real) \<Rightarrow> nat \<Rightarrow> 'a option result option"
  fix f s i y
  assume IH: "\<And>f s i y. loop f s i = Some y \<Longrightarrow> \<exists>k\<ge>i. \<not> retries f (s k)"
  assume body: "(case fst (s i) of
        RequestException \<Rightarrow> Some (Returned None)
      | Response response \<Rightarrow>
          (case handle_rate_limit f response (snd (s i)) of
             Raised e \<Rightarrow> Some (Raised e)
           | Returned limited \<Rightarrow>
               if fst limited then loop f s (Suc i)
               else if 400 \<le> status_code response \<and> status_code response < 600 then
                 (if status_code response = 403 then loop f s (Suc i)
                  else Some (Returned None))
               else (case json response of
                       None \<Rightarrow> Some (Returned None)
                     | Some v \<Rightarrow> Some (Returned (Some v))))) = Some y"
  show "\<exists>k\<ge>i. \<not> retries f (s k)"
  proof (cases "retries f (s i)")
    case False
    then show ?thesis by blast
  next
    case True
    with body have "loop f s (Suc i) = Some y"
      by (auto simp: retries_def split: outcome.splits result.splits if_splits)
    from IH [OF this] obtain k where "k \<ge> Suc i" "\<not> retries f (s k)" by blast
    then show ?thesis by (intro exI [of _ k]) simp
  qed
qed

lemma request_loop_diverges:
  "\<forall>k. retries py (srv k) \<Longrightarrow> request_loop py srv i = None"
  using request_loop_returned_unretried [of py srv i]
  by (cases "request_loop py srv i") auto

lemma retries_only_403:
  "retries py (Response r, now) \<Longrightarrow> status_code r = 403"
  by (auto simp: retries_def handle_rate_limit_def Let_def
      split: result.splits option.splits if_splits)

lemma retries_403:
  "status_code r = 403 \<Longrightarrow>
     retries py (Response r, now) \<longleftrightarrow> (\<exists>limited. handle_rate_limit py r now = Returned limited)"
  by (auto simp: retries_def split: result.splits)

lemma retries_forbidden: "retries py forbidden"
  by (simp add: retries_def forbidden_def handle_rate_limit_def)

lemma not_retries_ok: "\<not> retries py (ok v)"
  by (simp add: retries_def ok_def handle_rate_limit_def)

lemma answer_ok: "answer py (ok v) = Returned (Some v)"
  by (simp add: answer_def ok_def handle_rate_limit_def)

lemma commits_api_demo: "commits_api demo_env n page attempt = ok (demo_page page)"
  by (simp add: demo_env_def)

lemma commits_api_forbidden: "commits_api forbidden_env n page attempt = forbidden"
  by (simp add: forbidden_env_def)

subsection \<open>The text of the progress file\<close>

lemma json_object_nonempty: "json_object ms \<noteq> []"
  by (simp add: json_object_def)

lemma json_dump_progress_nonempty: "json_dump_progress infos ids \<noteq> []"
  by (simp add: json_dump_progress_def json_object_nonempty)

lemma save_progress_empty_demo:
  "save_progress demo_fetcher demo_runtime empty_progress Map.empty = Returned first_checkpoint"
  by (simp add: save_progress_def demo_runtime_def empty_progress_def first_checkpoint_def)

subsection \<open>The invariant across a page\<close>

lemma merge_result_no_orphans: "no_orphans st \<Longrightarrow> no_orphans (merge_result st r)"
  by (cases r) (auto simp: no_orphans_def merge_result_Some merge_result_None)

lemma page_step_no_orphans:
  "no_orphans (state ps) \<Longrightarrow> no_orphans (state (page_step self env cs ps ev))"
  by (cases ev) (auto simp: merge_result_no_orphans split: option.splits result.splits)

lemma foldl_page_step_no_orphans:
  "no_orphans (state ps) \<Longrightarrow> no_orphans (state (foldl (page_step self env cs) ps sched))"
  by (induction sched arbitrary: ps) (auto simp: page_step_no_orphans)

lemma pending_fresh_run: "pending_fresh cs ps \<Longrightarrow> seen ps i = Some S \<Longrightarrow> i < length cs"
  by (simp add: pending_fresh_def)

lemma pending_fresh_seen:
  "pending_fresh cs ps \<Longrightarrow> seen ps i = Some S \<Longrightarrow> i \<notin> set (collected ps) \<Longrightarrow>
     sha (cs ! i) \<in> processed_commits (state ps) \<Longrightarrow> sha (cs ! i) \<in> S"
  by (simp add: pending_fresh_def)

lemma pending_fresh_finished:
  "pending_fresh cs ps \<Longrightarrow> finished ps i = Some (Returned (Some r)) \<Longrightarrow>
     r = commit_info_of (cs ! i) \<and> (\<exists>S. seen ps i = Some S \<and> sha (cs ! i) \<notin> S)"
  by (simp add: pending_fresh_def)

lemma page_step_invariant:
  assumes inv: "progress_invariant (state ps)" and pend: "pending_fresh cs ps"
    and dist: "distinct (map sha cs)"
    and urls: "\<forall>c\<in>set cs. final_segment (html_url c) = sha c"
  shows "progress_invariant (state (page_step self env cs ps ev)) \<and>
         pending_fresh cs (page_step self env cs ps ev)"
proof (cases ev)
  case (Run i)
  show ?thesis
  proof (cases "i < length cs \<and> seen ps i = None")
    case False
    with Run inv pend show ?thesis by auto
  next
    case True
    have "\<And>r. finished ps i \<noteq> Some (Returned (Some r))"
      using pend True by (fastforce simp: pending_fresh_def)
    with Run True inv pend show ?thesis
      by (auto simp: pending_fresh_def)
  qed
next
  case (Finish i)
  show ?thesis
  proof (cases "seen ps i")
    case None
    with Finish inv pend show ?thesis by simp
  next
    case (Some S)
    show ?thesis
    proof (cases "finished ps i \<noteq> None")
      case True
      with Some Finish inv pend show ?thesis by auto
    next
      case False
      show ?thesis
      proof (cases "process_commit self env S (length (commits_info (state ps))) (disk ps) (cs ! i)")
        case None
        with False Some Finish inv pend show ?thesis by simp
      next
        case res: (Some res)
        obtain r fs' where rf: "res = (r, fs')" by (cases res)
        have step: "page_step self env cs ps ev = ps\<lparr>disk := fs', finished := (finished ps)(i \<mapsto> r)\<rparr>"
          using False Some Finish res rf by simp
        have "pending_fresh cs (ps\<lparr>disk := fs', finished := (finished ps)(i \<mapsto> r)\<rparr>)"
          using pend Some process_commit_Some [of self env S _ _ "cs ! i"] res rf
          by (auto simp: pending_fresh_def)
        with inv step show ?thesis by simp
      qed
    qed
  qed
next
  case (Collect i)
  show ?thesis
  proof (cases "reraised ps = None \<and> i \<notin> set (collected ps)")
    case False
    with Collect inv pend show ?thesis by auto
  next
    case go: True
    show ?thesis
    proof (cases "finished ps i")
      case None
      with Collect go inv pend show ?thesis by simp
    next
      case (Some res)
      show ?thesis
      proof (cases res)
        case (Raised e)
        with Some Collect go inv pend show ?thesis by (simp add: pending_fresh_def)
      next
        case (Returned r)
        show ?thesis
        proof (cases r)
          case None
          with Returned Some Collect go inv pend show ?thesis
            by (auto simp: pending_fresh_def merge_result_None)
        next
          case ci: (Some ci)
          from pending_fresh_finished [OF pend, of i ci] Returned Some ci obtain S where
            cieq: "ci = commit_info_of (cs ! i)" and S: "seen ps i = Some S"
            and notS: "sha (cs ! i) \<notin> S"
            by auto
          from pending_fresh_run [OF pend S] have i: "i < length cs" .
          from pending_fresh_seen [OF pend S] notS go
          have fresh: "sha (cs ! i) \<notin> processed_commits (state ps)" by auto
          from i urls have id: "identifier_of ci = sha (cs ! i)" by (simp add: cieq)
          have step: "page_step self env cs ps ev =
              ps\<lparr>state := merge_result (state ps) (Some ci), collected := collected ps @ [i]\<rparr>"
            using ci Returned Some Collect go by simp
          have "progress_invariant (merge_result (state ps) (Some ci))"
            using inv fresh id
            by (auto simp: progress_invariant_def no_orphans_def merge_result_Some)
          moreover have "pending_fresh cs
              (ps\<lparr>state := merge_result (state ps) (Some ci), collected := collected ps @ [i]\<rparr>)"
          proof -
            have "sha (cs ! j) \<in> T"
              if "seen ps j = Some T" "j \<noteq> i" "j \<notin> set (collected ps)"
                "sha (cs ! j) \<in> insert (sha (cs ! i)) (processed_commits (state ps))" for j T
            proof -
              from pending_fresh_run [OF pend that(1)] have j: "j < length cs" .
              with dist i that(2) have "sha (cs ! j) \<noteq> sha (cs ! i)"
                by (auto simp: distinct_conv_nth)
              with that(4) have "sha (cs ! j) \<in> processed_commits (state ps)" by simp
              with pending_fresh_seen [OF pend that(1,3)] show ?thesis by simp
            qed
            with pend id show ?thesis
              by (auto simp: pending_fresh_def merge_result_Some)
          qed
          ultimately show ?thesis by (simp add: step)
        qed
      qed
    qed
  qed
qed

lemma foldl_page_step_invariant:
  assumes "distinct (map sha cs)" and "\<forall>c\<in>set cs. final_segment (html_url c) = sha c"
  shows "progress_invariant (state ps) \<Longrightarrow> pending_fresh cs ps \<Longrightarrow>
         progress_invariant (state (foldl (page_step self env cs) ps sched))"
proof (induction sched arbitrary: ps)
  case Nil
  then show ?case by simp
next
  case (Cons ev sched)
  from page_step_invariant [OF Cons.prems assms, of self env ev]
  show ?case using Cons.IH by simp
qed

lemma run_page_demo_twice:
  "state (run_page demo_fetcher demo_env [demo_commit ''a1'' ann, demo_commit ''a1'' ann]
       (all_then_merge 1) empty_progress Map.empty) =
     \<lparr>commits_info = [commit_info_of (demo_commit ''a1'' ann), commit_info_of (demo_commit ''a1'' ann)],
      processed_commits = {''a1''}\<rparr>"
  by (simp add: run_page_def all_then_merge_def empty_progress_def process_commit_demo
      merge_result_Some final_segment_demo_commit sha_demo_commit)

subsection \<open>What a page merges\<close>

lemma grows_refl: "grows st st"
  by (simp add: grows_def)

lemma grows_trans: "grows a b \<Longrightarrow> grows b c \<Longrightarrow> grows a c"
  by (auto simp: grows_def)

lemma grows_merge_result: "grows st (merge_result st r)"
  by (cases r) (auto simp: grows_def merge_result_Some merge_result_None)

lemma merged_in_grows: "merged_in c st \<Longrightarrow> grows st st' \<Longrightarrow> merged_in c st'"
  by (auto simp: merged_in_def grows_def)

lemma page_merging_run:
  "page_merging cs st ps \<Longrightarrow> seen ps i = Some S \<Longrightarrow>
     i < length cs \<and> S \<subseteq> processed_commits (state ps)"
  by (simp add: page_merging_def)

lemma page_merging_finished:
  "page_merging cs st ps \<Longrightarrow> finished ps i = Some (Returned r) \<Longrightarrow>
     \<exists>S. seen ps i = Some S \<and>
         (case r of None \<Rightarrow> sha (cs ! i) \<in> S | Some info \<Rightarrow> info = commit_info_of (cs ! i))"
  by (simp add: page_merging_def)

lemma page_merging_collected:
  "page_merging cs st ps \<Longrightarrow> i \<in> set (collected ps) \<Longrightarrow>
     i < length cs \<and> merged_in (cs ! i) (state ps)"
  by (simp add: page_merging_def)

lemma page_merging_grows: "page_merging cs st ps \<Longrightarrow> grows st (state ps)"
  by (simp add: page_merging_def)

lemma page_step_merging:
  assumes inv: "page_merging cs st ps"
  shows "page_merging cs st (page_step self env cs ps ev)"
proof (cases ev)
  case (Run i)
  show ?thesis
  proof (cases "i < length cs \<and> seen ps i = None")
    case False
    with Run inv show ?thesis by auto
  next
    case True
    have "finished ps i \<noteq> Some (Returned r)" for r
      using page_merging_finished [OF inv, of i r] True by auto
    with Run True inv show ?thesis by (auto simp: page_merging_def)
  qed
next
  case (Finish i)
  show ?thesis
  proof (cases "seen ps i")
    case None
    with Finish inv show ?thesis by simp
  next
    case (Some S)
    show ?thesis
    proof (cases "finished ps i \<noteq> None")
      case True
      with Some Finish inv show ?thesis by auto
    next
      case False
      show ?thesis
      proof (cases "process_commit self env S (length (commits_info (state ps))) (disk ps) (cs ! i)")
        case None
        with False Some Finish inv show ?thesis by simp
      next
        case res: (Some res)
        obtain r fs' where rf: "res = (r, fs')" by (cases res)
        have step: "page_step self env cs ps ev = ps\<lparr>disk := fs', finished := (finished ps)(i \<mapsto> r)\<rparr>"
          using False Some Finish res rf by simp
        have new: "case v of None \<Rightarrow> sha (cs ! i) \<in> S | Some info \<Rightarrow> info = commit_info_of (cs ! i)"
          if "r = Returned v" for v
        proof (cases v)
          case None
          with that res rf show ?thesis by (simp add: process_commit_skip)
        next
          case (Some info)
          with that res rf process_commit_Some [of self env S _ _ "cs ! i" info fs']
          show ?thesis by simp
        qed
        show ?thesis unfolding step using inv Some new
          by (auto simp: page_merging_def)
      qed
    qed
  qed
next
  case (Collect i)
  show ?thesis
  proof (cases "reraised ps = None \<and> i \<notin> set (collected ps)")
    case False
    with Collect inv show ?thesis by auto
  next
    case go: True
    show ?thesis
    proof (cases "finished ps i")
      case None
      with Collect go inv show ?thesis by simp
    next
      case (Some res)
      show ?thesis
      proof (cases res)
        case (Raised e)
        with Some Collect go inv show ?thesis by (simp add: page_merging_def)
      next
        case (Returned r)
        let ?st' = "merge_result (state ps) r"
        have step: "page_step self env cs ps ev = ps\<lparr>state := ?st', collected := collected ps @ [i]\<rparr>"
          using Returned Some Collect go by simp
        have g: "grows (state ps) ?st'" by (rule grows_merge_result)
        from page_merging_finished [OF inv, of i r] Some Returned obtain S where
          S: "seen ps i = Some S"
          and r: "case r of None \<Rightarrow> sha (cs ! i) \<in> S | Some info \<Rightarrow> info = commit_info_of (cs ! i)"
          by auto
        from page_merging_run [OF inv S] have i: "i < length cs"
          and sub: "S \<subseteq> processed_commits (state ps)" by simp_all
        have mi: "merged_in (cs ! i) ?st'"
        proof (cases r)
          case None
          with r sub show ?thesis by (auto simp: merged_in_def merge_result_None)
        next
          case (Some info)
          with r show ?thesis by (simp add: merged_in_def merge_result_Some)
        qed
        have a: "j < length cs \<and> T \<subseteq> processed_commits ?st'" if "seen ps j = Some T" for j T
          using page_merging_run [OF inv that] g by (auto simp: grows_def)
        have c: "j < length cs \<and> merged_in (cs ! j) ?st'" if "j \<in> set (collected ps @ [i])" for j
        proof (cases "j = i")
          case True
          with i mi show ?thesis by simp
        next
          case False
          with that have "j \<in> set (collected ps)" by simp
          from page_merging_collected [OF inv this] g show ?thesis
            by (auto intro: merged_in_grows)
        qed
        have d: "grows st ?st'" using page_merging_grows [OF inv] g by (rule grows_trans)
        have b: "\<exists>T. seen ps j = Some T \<and>
            (case v of None \<Rightarrow> sha (cs ! j) \<in> T | Some info \<Rightarrow> info = commit_info_of (cs ! j))"
          if "finished ps j = Some (Returned v)" for j v
          using page_merging_finished [OF inv that] .
        show ?thesis unfolding step page_merging_def using a b c d by simp
      qed
    qed
  qed
qed

lemma foldl_page_step_merging:
  "page_merging cs st ps \<Longrightarrow> page_merging cs st (foldl (page_step self env cs) ps sched)"
  by (induction sched arbitrary: ps) (auto simp: page_step_merging)

lemma run_page_merging: "page_merging cs st (run_page self env cs sched st fs)"
  unfolding run_page_def
  by (rule foldl_page_step_merging) (simp add: page_merging_def grows_refl)

lemma page_done_all_collected:
  "page_end_of cs ps = Page_done \<Longrightarrow> i < length cs \<Longrightarrow> i \<in> set (collected ps)"
  by (auto simp: page_end_of_def list_all_iff split: option.splits if_splits)

lemma run_page_merges:
  assumes "page_end_of cs (run_page self env cs sched st fs) = Page_done"
  shows "(\<forall>c\<in>set cs. merged_in c (state (run_page self env cs sched st fs))) \<and>
         grows st (state (run_page self env cs sched st fs))"
proof -
  let ?ps = "run_page self env cs sched st fs"
  have inv: "page_merging cs st ?ps" by (rule run_page_merging)
  have "merged_in c (state ?ps)" if "c \<in> set cs" for c
  proof -
    from that obtain i where i: "i < length cs" "cs ! i = c" by (auto simp: in_set_conv_nth)
    from page_done_all_collected [OF assms i(1)] page_merging_collected [OF inv] i(2)
    show ?thesis by auto
  qed
  with page_merging_grows [OF inv] show ?thesis by simp
qed

subsection \<open>A page whose workers all return\<close>

lemma page_step_collects:
  assumes workers: "\<forall>c\<in>set cs. worker_returns self env c"
    and inv: "workers_returned cs ps"
  shows "workers_returned cs (page_step self env cs ps ev) \<and>
         (\<forall>i<length cs.
            i \<in> set (collected ps) \<or> collects i (stage ps i) (ev # evs) \<longrightarrow>
            i \<in> set (collected (page_step self env cs ps ev)) \<or>
            collects i (stage (page_step self env cs ps ev) i) evs)"
proof (cases ev)
  case (Run j)
  show ?thesis
  proof (cases "j < length cs \<and> seen ps j = None")
    case True
    have fin: "finished ps j = None"
    proof (cases "finished ps j")
      case (Some a)
      with inv have "seen ps j \<noteq> None" unfolding workers_returned_def by blast
      with True show ?thesis by simp
    qed simp
    have st: "stage (ps\<lparr>seen := (seen ps)(j \<mapsto> processed_commits (state ps))\<rparr>) i =
        (if i = j \<and> stage ps i = 0 then 1 else stage ps i)" for i
      using True fin by (auto simp: stage_def)
    from True Run inv show ?thesis
      by (auto simp: workers_returned_def st)
  next
    case False
    have "(if i = j \<and> stage ps i = 0 then 1 else stage ps i) = stage ps i" if "i < length cs" for i
      using False that by (auto simp: stage_def)
    with Run inv False show ?thesis by auto
  qed
next
  case (Finish j)
  show ?thesis
  proof (cases "seen ps j")
    case None
    then have "(if i = j \<and> stage ps i = 1 then 2 else stage ps i) = stage ps i" for i
      by (auto simp: stage_def)
    with None Finish inv show ?thesis by auto
  next
    case (Some S)
    show ?thesis
    proof (cases "finished ps j \<noteq> None")
      case True
      then have "(if i = j \<and> stage ps i = 1 then 2 else stage ps i) = stage ps i" for i
        by (auto simp: stage_def)
      with True Some Finish inv show ?thesis by auto
    next
      case False
      from Some inv have "j < length cs" by (auto simp: workers_returned_def)
      then have "cs ! j \<in> set cs" by simp
      with workers obtain v fs' where
        pc: "process_commit self env S (length (commits_info (state ps))) (disk ps) (cs ! j) =
              Some (Returned v, fs')"
        unfolding worker_returns_def by blast
      have step: "page_step self env cs ps ev =
          ps\<lparr>disk := fs', finished := (finished ps)(j \<mapsto> Returned v)\<rparr>"
        using False Some Finish pc by simp
      have st: "stage (ps\<lparr>disk := fs', finished := (finished ps)(j \<mapsto> Returned v)\<rparr>) i =
          (if i = j \<and> stage ps i = 1 then 2 else stage ps i)" for i
        using False Some by (auto simp: stage_def)
      show ?thesis unfolding step using Finish inv Some
        by (auto simp: workers_returned_def st)
    qed
  qed
next
  case (Collect j)
  have st: "stage (page_step self env cs ps ev) i = stage ps i" for i
    using Collect by (auto simp: stage_def split: option.splits result.splits)
  show ?thesis
  proof (cases "j \<notin> set (collected ps) \<and> finished ps j \<noteq> None")
    case True
    then obtain y where y: "finished ps j = Some y" by auto
    with inv have "\<exists>v. y = Returned v" unfolding workers_returned_def by blast
    with y inv obtain v where "finished ps j = Some (Returned v)" "reraised ps = None"
      unfolding workers_returned_def by blast
    with True Collect inv show ?thesis
      by (auto simp: workers_returned_def stage_def)
  next
    case False
    with Collect inv show ?thesis
      by (auto simp: workers_returned_def stage_def split: option.splits)
  qed
qed

lemma foldl_page_step_collects:
  assumes workers: "\<forall>c\<in>set cs. worker_returns self env c"
  shows "workers_returned cs ps \<Longrightarrow> i < length cs \<Longrightarrow>
         i \<in> set (collected ps) \<or> collects i (stage ps i) evs \<Longrightarrow>
         i \<in> set (collected (foldl (page_step self env cs) ps evs))"
proof (induction evs arbitrary: ps)
  case Nil
  then show ?case by simp
next
  case (Cons ev evs)
  from page_step_collects [OF workers Cons.prems(1), of ev evs] Cons.prems
  have "workers_returned cs (page_step self env cs ps ev)"
    and "i \<in> set (collected (page_step self env cs ps ev)) \<or>
         collects i (stage (page_step self env cs ps ev) i) evs"
    by blast+
  from Cons.IH [OF this(1) Cons.prems(2) this(2)] show ?case by simp
qed

lemma foldl_page_step_returned:
  assumes workers: "\<forall>c\<in>set cs. worker_returns self env c"
  shows "workers_returned cs ps \<Longrightarrow> workers_returned cs (foldl (page_step self env cs) ps evs)"
proof (induction evs arbitrary: ps)
  case Nil
  then show ?case by simp
next
  case (Cons ev evs)
  from page_step_collects [OF workers Cons.prems, of ev evs]
  have "workers_returned cs (page_step self env cs ps ev)" by blast
  from Cons.IH [OF this] show ?case by simp
qed

lemma run_page_done:
  assumes "\<forall>c\<in>set cs. worker_returns self env c"
    and "serves (length cs) sched"
  shows "page_end_of cs (run_page self env cs sched st fs) = Page_done"
proof -
  let ?ps = "\<lparr>state = st, disk = fs, seen = Map.empty, finished = Map.empty, collected = [],
              reraised = None\<rparr>"
  have w: "workers_returned cs ?ps" by (simp add: workers_returned_def)
  have "i \<in> set (collected (foldl (page_step self env cs) ?ps sched))" if "i < length cs" for i
    using foldl_page_step_collects [OF assms(1) w that, of sched] assms(2) that
    by (simp add: serves_def list_all_iff stage_def)
  moreover have "workers_returned cs (foldl (page_step self env cs) ?ps sched)"
    using foldl_page_step_returned [OF assms(1) w] .
  ultimately show ?thesis
    by (auto simp: page_end_of_def run_page_def workers_returned_def list_all_iff)
qed

subsection \<open>The shape of the log\<close>

lemma save_progress_Returned:
  "save_progress self py st fs0 = Returned fs1 \<Longrightarrow>
     fs1 (progress_file self) = Some (checkpoint_text py st)"
  by (auto simp: save_progress_def checkpoint_text_def split: if_splits)

lemma process_commits_from_Suc:
  assumes "process_commits_from (Suc fuel) self env sched q st fs = (e, steps, st', fs')"
  shows "steps = [Fetch_listing q fs] \<or>
    (\<exists>cs. fetch_commits self env q = Some (Returned (Some cs)) \<and> cs \<noteq> [] \<and>
       page_end_of cs (run_page self env cs (sched q) st fs) = Page_done \<and>
       (steps = [Fetch_listing q fs,
                 Page_merged q (collected (run_page self env cs (sched q) st fs))
                   (state (run_page self env cs (sched q) st fs))] \<or>
        (\<exists>fs1. save_progress self (rt env) (state (run_page self env cs (sched q) st fs))
                 (disk (run_page self env cs (sched q) st fs)) = Returned fs1 \<and>
           (\<exists>later.
              steps = Fetch_listing q fs #
                      Page_merged q (collected (run_page self env cs (sched q) st fs))
                        (state (run_page self env cs (sched q) st fs)) #
                      Save_progress (state (run_page self env cs (sched q) st fs)) # Sleep 6 # later \<and>
              (later = [] \<or>
               process_commits_from fuel self env sched (Suc q)
                 (state (run_page self env cs (sched q) st fs)) fs1 = (e, later, st', fs'))))))"
  using assms
  by (auto simp: Let_def
      split: option.splits result.splits if_splits page_end.splits prod.splits)

lemma process_commits_from_rounds:
  "process_commits_from fuel self env sched q st fs = (e, steps, st', fs') \<Longrightarrow>
     rounds_from self env q st fs steps"
proof (induction fuel arbitrary: q st fs e steps st' fs')
  case 0
  then show ?case by (simp add: no_round)
next
  case (Suc fuel)
  from process_commits_from_Suc [OF Suc.prems]
  consider "steps = [Fetch_listing q fs]"
    | cs where "steps = [Fetch_listing q fs,
                 Page_merged q (collected (run_page self env cs (sched q) st fs))
                   (state (run_page self env cs (sched q) st fs))]"
    | cs fs1 later where
      "fetch_commits self env q = Some (Returned (Some cs))"
      "page_end_of cs (run_page self env cs (sched q) st fs) = Page_done"
      "save_progress self (rt env) (state (run_page self env cs (sched q) st fs))
                 (disk (run_page self env cs (sched q) st fs)) = Returned fs1"
      "steps = Fetch_listing q fs #
                      Page_merged q (collected (run_page self env cs (sched q) st fs))
                        (state (run_page self env cs (sched q) st fs)) #
                      Save_progress (state (run_page self env cs (sched q) st fs)) # Sleep 6 # later"
      "later = [] \<or>
               process_commits_from fuel self env sched (Suc q)
                 (state (run_page self env cs (sched q) st fs)) fs1 = (e, later, st', fs')"
    by blast
  then show ?case
  proof cases
    case 1
    then show ?thesis by (simp add: last_fetch)
  next
    case 2
    then show ?thesis by (simp add: last_merge)
  next
    case 3
    let ?ps = "run_page self env cs (sched q) st fs"
    from 3(5) have later: "rounds_from self env (Suc q) (state ?ps) fs1 later"
      using Suc.IH by (auto intro: no_round)
    from run_page_merges [OF 3(2)] have m: "\<forall>c\<in>set cs. merged_in c (state ?ps)"
      and g: "grows st (state ?ps)" by simp_all
    show ?thesis unfolding 3(4)
      by (rule round [OF 3(1) m g 3(3) later])
  qed
qed

lemma rounds_from_fetched_pages:
  "rounds_from self env q st fs steps \<Longrightarrow>
     fetched_pages steps = [q..<q + length (fetched_pages steps)]"
proof (induction rule: rounds_from.induct)
  case (round q cs st1 st fs0 fs1 later fs got)
  define l where "l = length (fetched_pages later)"
  from round have ih: "fetched_pages later = [Suc q..<Suc q + l]" by (simp add: l_def)
  have "[q..<q + Suc l] = q # [Suc q..<Suc q + l]" by (subst upt_rec) simp
  with ih show ?case by (simp add: l_def [symmetric] del: upt_Suc)
qed auto

lemma rounds_from_before_fetch:
  "rounds_from self env q st fs steps \<Longrightarrow> steps = pre @ Fetch_listing n fs_n # post \<Longrightarrow>
     (pre = [] \<and> n = q \<and> fs_n = fs) \<or>
     (q < n \<and>
      (\<exists>pre' got st_n fs0.
         pre = pre' @ [Page_merged (n - 1) got st_n, Save_progress st_n, Sleep 6] \<and>
         save_progress self (rt env) st_n fs0 = Returned fs_n \<and>
         grows st st_n \<and>
         (\<forall>m. q \<le> m \<and> m < n \<longrightarrow>
            (\<exists>cs. fetch_commits self env m = Some (Returned (Some cs)) \<and>
                  (\<forall>c\<in>set cs. merged_in c st_n)))))"
proof (induction arbitrary: pre rule: rounds_from.induct)
  case (no_round q st fs)
  then show ?case by simp
next
  case (last_fetch q st fs)
  then show ?case by (auto simp: Cons_eq_append_conv)
next
  case (last_merge q st fs got st1)
  then show ?case by (auto simp: Cons_eq_append_conv)
next
  case (round q cs st1 st fs0 fs1 later fs got)
  show ?case
  proof (cases pre)
    case Nil
    with round.prems show ?thesis by simp
  next
    case (Cons a pre1)
    with round.prems
    have a: "a = Fetch_listing q fs"
      and r: "Page_merged q got st1 # Save_progress st1 # Sleep 6 # later =
              pre1 @ Fetch_listing n fs_n # post"
      by simp_all
    from r obtain pre2 where p1: "pre1 = Page_merged q got st1 # pre2"
      and r2: "Save_progress st1 # Sleep 6 # later = pre2 @ Fetch_listing n fs_n # post"
      by (cases pre1) auto
    from r2 obtain pre3 where p2: "pre2 = Save_progress st1 # pre3"
      and r3: "Sleep 6 # later = pre3 @ Fetch_listing n fs_n # post"
      by (cases pre2) auto
    from r3 obtain pre4 where p3: "pre3 = Sleep 6 # pre4"
      and r4: "later = pre4 @ Fetch_listing n fs_n # post"
      by (cases pre3) auto
    have pre: "pre = Fetch_listing q fs # Page_merged q got st1 # Save_progress st1 # Sleep 6 # pre4"
      using Cons a p1 p2 p3 by simp
    from round.IH [OF r4]
    show ?thesis
    proof
      assume first: "pre4 = [] \<and> n = Suc q \<and> fs_n = fs1"
      have "\<exists>cs'. fetch_commits self env m = Some (Returned (Some cs')) \<and>
               (\<forall>c\<in>set cs'. merged_in c st1)" if "q \<le> m \<and> m < n" for m
      proof -
        from that first have "m = q" by simp
        with round.hyps(1,2) show ?thesis by blast
      qed
      with first pre round.hyps(3,4) show ?thesis
        by (intro disjI2 conjI exI [of _ "[Fetch_listing q fs]"] exI [of _ got]
            exI [of _ st1] exI [of _ fs0]) auto
    next
      assume "Suc q < n \<and>
        (\<exists>pre' got st_n fs0.
           pre4 = pre' @ [Page_merged (n - 1) got st_n, Save_progress st_n, Sleep 6] \<and>
           save_progress self (rt env) st_n fs0 = Returned fs_n \<and>
           grows st1 st_n \<and>
           (\<forall>m. Suc q \<le> m \<and> m < n \<longrightarrow>
              (\<exists>cs. fetch_commits self env m = Some (Returned (Some cs)) \<and>
                    (\<forall>c\<in>set cs. merged_in c st_n))))"
      then obtain pre' g' st_n f0 where lt: "Suc q < n"
        and p4: "pre4 = pre' @ [Page_merged (n - 1) g' st_n, Save_progress st_n, Sleep 6]"
        and sv: "save_progress self (rt env) st_n f0 = Returned fs_n"
        and gr: "grows st1 st_n"
        and ms: "\<forall>m. Suc q \<le> m \<and> m < n \<longrightarrow>
              (\<exists>cs. fetch_commits self env m = Some (Returned (Some cs)) \<and>
                    (\<forall>c\<in>set cs. merged_in c st_n))"
        by blast
      have all: "\<exists>cs'. fetch_commits self env m = Some (Returned (Some cs')) \<and>
               (\<forall>c\<in>set cs'. merged_in c st_n)" if "q \<le> m \<and> m < n" for m
      proof (cases "m = q")
        case True
        from round.hyps(2) gr have "\<forall>c\<in>set cs. merged_in c st_n"
          by (auto intro: merged_in_grows)
        with True round.hyps(1) show ?thesis by blast
      next
        case False
        with that ms show ?thesis by simp
      qed
      have g2: "grows st st_n" using round.hyps(3) gr by (rule grows_trans)
      have "pre = (Fetch_listing q fs # Page_merged q got st1 # Save_progress st1 # Sleep 6 # pre') @
          [Page_merged (n - 1) g' st_n, Save_progress st_n, Sleep 6]"
        using pre p4 by simp
      with lt sv g2 all show ?thesis by (intro disjI2) fastforce
    qed
  qed
qed

lemma process_commits_from_merged:
  "process_commits_from fuel self env sched q st fs = (e, steps, st', fs') \<Longrightarrow>
   Page_merged n got st_n \<in> set steps \<Longrightarrow>
   \<exists>cs. fetch_commits self env n = Some (Returned (Some cs)) \<and> (\<forall>i<length cs. i \<in> set got)"
proof (induction fuel arbitrary: q st fs e steps st' fs')
  case 0
  then show ?case by simp
next
  case (Suc fuel)
  from process_commits_from_Suc [OF Suc.prems(1)] Suc.prems(2) Suc.IH
  show ?case by (fastforce simp: page_done_all_collected)
qed

subsection \<open>A run that reaches the stop identifier\<close>

lemma fetched_pages_append:
  "fetched_pages (xs @ ys) = fetched_pages xs @ fetched_pages ys"
  by (induction xs rule: fetched_pages.induct) auto

lemma process_commits_from_round:
  assumes "fetch_commits self env q = Some (Returned (Some cs))" and "cs \<noteq> []"
    and "page_end_of cs (run_page self env cs (sched q) st fs) = Page_done"
    and "save_progress self (rt env) (state (run_page self env cs (sched q) st fs))
           (disk (run_page self env cs (sched q) st fs)) = Returned fs1"
  shows "process_commits_from (Suc fuel) self env sched q st fs =
     (if stop_found self cs
      then (Finished,
            [Fetch_listing q fs,
             Page_merged q (collected (run_page self env cs (sched q) st fs))
               (state (run_page self env cs (sched q) st fs)),
             Save_progress (state (run_page self env cs (sched q) st fs)), Sleep 6],
            state (run_page self env cs (sched q) st fs), fs1)
      else (case process_commits_from fuel self env sched (Suc q)
                  (state (run_page self env cs (sched q) st fs)) fs1 of
              (e, later, rest) \<Rightarrow>
                (e, [Fetch_listing q fs,
                     Page_merged q (collected (run_page self env cs (sched q) st fs))
                       (state (run_page self env cs (sched q) st fs)),
                     Save_progress (state (run_page self env cs (sched q) st fs)), Sleep 6] @ later,
                 rest)))"
  using assms by (simp add: Let_def)

lemma save_progress_succeeds:
  "\<not> os_error py fs (progress_file self) \<Longrightarrow>
     save_progress self py st fs =
       Returned (fs(progress_file self \<mapsto> checkpoint_text py st))"
  by (simp add: save_progress_def checkpoint_text_def)

lemma stops_from_page:
  assumes stop: "commit_hash_end self = Some h" "h \<noteq> []"
    and pages: "\<forall>n. 1 \<le> n \<and> n \<le> p \<longrightarrow>
        fetch_commits self env n = Some (Returned (Some (pages n))) \<and> pages n \<noteq> [] \<and>
        serves (length (pages n)) (sched n) \<and>
        (\<forall>c\<in>set (pages n). worker_returns self env c)"
    and disk: "\<forall>fs. \<not> os_error (rt env) fs (progress_file self)"
    and first: "\<forall>n. 1 \<le> n \<and> n < p \<longrightarrow> h \<notin> set (map sha (pages n))"
    and found: "h \<in> set (map sha (pages p))"
  shows "1 \<le> q \<Longrightarrow> q \<le> p \<Longrightarrow> p - q < fuel \<Longrightarrow>
     \<exists>steps st' fs'. process_commits_from fuel self env sched q st fs = (Finished, steps, st', fs') \<and>
        fetched_pages steps = [q..<Suc p] \<and>
        (\<forall>n. q \<le> n \<and> n \<le> p \<longrightarrow> (\<forall>c\<in>set (pages n). merged_in c st')) \<and>
        grows st st' \<and>
        fs' (progress_file self) = Some (checkpoint_text (rt env) st')"
proof (induction "p - q" arbitrary: q fuel st fs)
  case 0
  then have qp: "q = p" by simp
  from 0 obtain f where fuel: "fuel = Suc f" by (cases fuel) auto
  let ?ps = "run_page self env (pages p) (sched p) st fs"
  let ?fs1 = "(disk ?ps)(progress_file self \<mapsto> checkpoint_text (rt env) (state ?ps))"
  from pages 0 qp have fc: "fetch_commits self env p = Some (Returned (Some (pages p)))"
    and ne: "pages p \<noteq> []" and sv: "serves (length (pages p)) (sched p)"
    and wk: "\<forall>c\<in>set (pages p). worker_returns self env c"
    by auto
  have pd: "page_end_of (pages p) ?ps = Page_done" using run_page_done [OF wk sv] .
  have sp: "save_progress self (rt env) (state ?ps) (disk ?ps) = Returned ?fs1"
    using disk by (simp add: save_progress_succeeds)
  have sf: "stop_found self (pages p)" using stop found by (simp add: stop_found_def)
  have run: "process_commits_from fuel self env sched q st fs =
      (Finished, [Fetch_listing p fs, Page_merged p (collected ?ps) (state ?ps),
                  Save_progress (state ?ps), Sleep 6], state ?ps, ?fs1)"
    unfolding fuel qp process_commits_from_round [where sched = sched, OF fc ne pd sp] using sf by simp
  from run_page_merges [OF pd] have "\<forall>c\<in>set (pages p). merged_in c (state ?ps)"
    and "grows st (state ?ps)" by simp_all
  with run qp show ?case by auto
next
  case (Suc d)
  then have lt: "q < p" by simp
  from Suc obtain f where fuel: "fuel = Suc f" by (cases fuel) auto
  let ?ps = "run_page self env (pages q) (sched q) st fs"
  let ?fs1 = "(disk ?ps)(progress_file self \<mapsto> checkpoint_text (rt env) (state ?ps))"
  let ?steps = "[Fetch_listing q fs, Page_merged q (collected ?ps) (state ?ps),
                  Save_progress (state ?ps), Sleep 6]"
  from pages Suc.prems have fc: "fetch_commits self env q = Some (Returned (Some (pages q)))"
    and ne: "pages q \<noteq> []" and sv: "serves (length (pages q)) (sched q)"
    and wk: "\<forall>c\<in>set (pages q). worker_returns self env c"
    by auto
  have pd: "page_end_of (pages q) ?ps = Page_done" using run_page_done [OF wk sv] .
  have sp: "save_progress self (rt env) (state ?ps) (disk ?ps) = Returned ?fs1"
    using disk by (simp add: save_progress_succeeds)
  have sf: "\<not> stop_found self (pages q)"
    using stop first lt Suc.prems(1) by (simp add: stop_found_def)
  have "d = p - Suc q" "1 \<le> Suc q" "Suc q \<le> p" "p - Suc q < f"
    using Suc.hyps(2) Suc.prems lt fuel by auto
  from Suc.hyps(1) [OF this, of "state ?ps" ?fs1] obtain later st' fs' where
    rec: "process_commits_from f self env sched (Suc q) (state ?ps) ?fs1 = (Finished, later, st', fs')"
    and fp: "fetched_pages later = [Suc q..<Suc p]"
    and pm: "\<forall>n. Suc q \<le> n \<and> n \<le> p \<longrightarrow> (\<forall>c\<in>set (pages n). merged_in c st')"
    and gr: "grows (state ?ps) st'"
    and ck: "fs' (progress_file self) = Some (checkpoint_text (rt env) st')"
    by blast
  have run: "process_commits_from fuel self env sched q st fs = (Finished, ?steps @ later, st', fs')"
    unfolding fuel process_commits_from_round [where sched = sched, OF fc ne pd sp] using sf rec by simp
  have "[q..<Suc p] = q # [Suc q..<Suc p]" using lt by (subst upt_rec) simp
  with fp have fps: "fetched_pages (?steps @ later) = [q..<Suc p]"
    by (simp del: upt_Suc)
  from run_page_merges [OF pd] have mq: "\<forall>c\<in>set (pages q). merged_in c (state ?ps)"
    and gq: "grows st (state ?ps)" by simp_all
  have "\<forall>c\<in>set (pages n). merged_in c st'" if "q \<le> n" "n \<le> p" for n
  proof (cases "n = q")
    case True
    with mq gr show ?thesis by (auto intro: merged_in_grows)
  next
    case False
    with that have "Suc q \<le> n \<and> n \<le> p" by simp
    with pm show ?thesis by blast
  qed
  moreover have "grows st st'" using gq gr by (rule grows_trans)
  ultimately show ?case using run fps ck by blast
qed

lemma set_fetched_pages:
  "n \<in> set (fetched_pages steps) \<longleftrightarrow> (\<exists>fs. Fetch_listing n fs \<in> set steps)"
  by (induction steps rule: fetched_pages.induct) auto

subsection \<open>The run on the small repository\<close>

lemma rt_demo_env: "rt demo_env = demo_runtime"
  by (simp add: demo_env_def)

lemma os_error_demo: "\<not> os_error demo_runtime fs path"
  by (simp add: demo_runtime_def)

lemma fetch_commits_demo:
  "fetch_commits self demo_env n = Some (Returned (Some (demo_page n)))"
  by (simp add: fetch_commits_def demo_env_def request_loop.simps ok_def handle_rate_limit_def)

lemma worker_returns_demo: "worker_returns self demo_env c"
  unfolding worker_returns_def
proof (intro allI)
  fix processed position fs
  show "\<exists>r fs'. process_commit self demo_env processed position fs c = Some (Returned r, fs')"
  proof (cases "sha c \<in> processed")
    case True
    then show ?thesis by (simp add: process_commit_def)
  next
    case False
    then show ?thesis by (simp add: process_commit_demo)
  qed
qed

lemma serves_all_then_merge: "serves 2 (all_then_merge n)"
  by (simp add: serves_def all_then_merge_def numeral_2_eq_2)

lemma length_demo_page: "1 \<le> n \<Longrightarrow> n \<le> 2 \<Longrightarrow> length (demo_page n) = 2"
  by (auto simp: demo_page_def)

lemma demo_page_nonempty: "demo_page n \<noteq> []"
  by (simp add: demo_page_def)

lemma run_page_demo_1:
  "run_page demo_fetcher demo_env (demo_page 1) (all_then_merge 1) empty_progress Map.empty =
     \<lparr>state = demo_state_1, disk = Map.empty, seen = [0 \<mapsto> {}, 1 \<mapsto> {}],
      finished = [0 \<mapsto> Returned (Some (commit_info_of (demo_commit ''a1'' ann))),
                  1 \<mapsto> Returned (Some (commit_info_of (demo_commit ''b2'' None)))],
      collected = [0, 1], reraised = None\<rparr>"
  by (simp add: run_page_def all_then_merge_def demo_page_def empty_progress_def demo_state_1_def
      process_commit_demo sha_demo_commit merge_result_Some final_segment_demo_commit
      insert_commute)

lemma run_page_demo_2:
  "run_page demo_fetcher demo_env (demo_page 2) (all_then_merge 2) demo_state_1 demo_files_1 =
     \<lparr>state = demo_state_2, disk = demo_files_1,
      seen = [0 \<mapsto> {''a1'', ''b2''}, 1 \<mapsto> {''a1'', ''b2''}],
      finished = [0 \<mapsto> Returned (Some (commit_info_of (demo_commit ''c3'' ann))),
                  1 \<mapsto> Returned (Some (commit_info_of (demo_commit ''d4'' ann)))],
      collected = [0, 1], reraised = None\<rparr>"
  by (simp add: run_page_def all_then_merge_def demo_page_def demo_state_1_def demo_state_2_def
      process_commit_demo sha_demo_commit merge_result_Some final_segment_demo_commit
      insert_commute)

lemma save_progress_demo_1:
  "save_progress demo_fetcher (rt demo_env) demo_state_1 Map.empty = Returned demo_files_1"
  by (simp add: rt_demo_env save_progress_succeeds os_error_demo demo_files_1_def)

lemma save_progress_demo_2:
  "save_progress demo_fetcher (rt demo_env) demo_state_2 demo_files_1 = Returned demo_files_2"
  by (simp add: rt_demo_env save_progress_succeeds os_error_demo demo_files_1_def demo_files_2_def)

lemma demo_run:
  "process_commits 5 demo_fetcher demo_env all_then_merge empty_progress Map.empty =
     (Finished, demo_steps, demo_state_2, demo_files_2)"
proof -
  have p1: "demo_page 1 \<noteq> []" and p2: "demo_page 2 \<noteq> []" by (simp_all add: demo_page_def)
  have s1: "\<not> stop_found demo_fetcher (demo_page 1)"
    by (simp add: stop_found_def demo_fetcher_def demo_page_def sha_demo_commit)
  have s2: "stop_found demo_fetcher (demo_page 2)"
    by (simp add: stop_found_def demo_fetcher_def demo_page_def sha_demo_commit)
  have e1: "page_end_of (demo_page 1)
      (run_page demo_fetcher demo_env (demo_page 1) (all_then_merge 1) empty_progress Map.empty) =
      Page_done"
    unfolding run_page_demo_1 by (simp add: page_end_of_def demo_page_def)
  have e2: "page_end_of (demo_page 2)
      (run_page demo_fetcher demo_env (demo_page 2) (all_then_merge 2) demo_state_1 demo_files_1) =
      Page_done"
    unfolding run_page_demo_2 by (simp add: page_end_of_def demo_page_def)
  have v1: "save_progress demo_fetcher (rt demo_env)
      (state (run_page demo_fetcher demo_env (demo_page 1) (all_then_merge 1) empty_progress Map.empty))
      (disk (run_page demo_fetcher demo_env (demo_page 1) (all_then_merge 1) empty_progress Map.empty)) =
      Returned demo_files_1"
    unfolding run_page_demo_1 by (simp add: save_progress_demo_1)
  have v2: "save_progress demo_fetcher (rt demo_env)
      (state (run_page demo_fetcher demo_env (demo_page 2) (all_then_merge 2) demo_state_1 demo_files_1))
      (disk (run_page demo_fetcher demo_env (demo_page 2) (all_then_merge 2) demo_state_1 demo_files_1)) =
      Returned demo_files_2"
    unfolding run_page_demo_2 by (simp add: save_progress_demo_2)
  have r2: "process_commits_from (Suc 3) demo_fetcher demo_env all_then_merge 2 demo_state_1
        demo_files_1 =
      (Finished, [Fetch_listing 2 demo_files_1, Page_merged 2 [0, 1] demo_state_2,
                  Save_progress demo_state_2, Sleep 6], demo_state_2, demo_files_2)"
    unfolding process_commits_from_round
        [of demo_fetcher demo_env 2 "demo_page 2" all_then_merge demo_state_1 demo_files_1,
          OF fetch_commits_demo p2 e2 v2] run_page_demo_2
    using s2 by simp
  have "process_commits_from (Suc (Suc 3)) demo_fetcher demo_env all_then_merge 1 empty_progress
        Map.empty =
      (Finished, demo_steps, demo_state_2, demo_files_2)"
    unfolding process_commits_from_round
        [of demo_fetcher demo_env 1 "demo_page 1" all_then_merge empty_progress Map.empty,
          OF fetch_commits_demo p1 e1 v1] run_page_demo_1
    using s1 r2 by (simp add: demo_steps_def numeral_2_eq_2)
  moreover have "(5::nat) = Suc (Suc 3)" by simp
  ultimately show ?thesis by (simp only: process_commits_def)
qed

lemma fetch_commits_stuck:
  "fetch_commits self stuck_env n = Some (Returned (Some (demo_page n)))"
  by (simp add: fetch_commits_def stuck_env_def request_loop.simps ok_def handle_rate_limit_def)

lemma fetch_details_stuck: "fetch_commit_details stuck_env c = None"
  by (simp add: fetch_commit_details_def stuck_env_def request_loop_diverges retries_forbidden)

lemma process_commit_stuck:
  "sha c \<notin> processed \<Longrightarrow> process_commit self stuck_env processed position fs c = None"
  by (simp add: process_commit_def fetch_details_stuck)

lemma process_commits_from_waiting:
  assumes "fetch_commits self env q = Some (Returned (Some cs))" and "cs \<noteq> []"
    and "page_end_of cs (run_page self env cs (sched q) st fs) = Page_waiting"
  shows "process_commits_from (Suc fuel) self env sched q st fs =
     (Never_returns, [Fetch_listing q fs], state (run_page self env cs (sched q) st fs),
      disk (run_page self env cs (sched q) st fs))"
  using assms by (simp add: Let_def)

section \<open>A failed detail fetch does not drop the commit\<close>

text \<open>
  C1, as the code has it. When \<open>fetch_commit_details\<close> returns no data for a commit
  that is not yet processed, \<open>process_commit\<close> still returns the record built from the
  listing, and only \<open>save_commit_files\<close> is left out: the files stay as they are.
  The worker returns normally, so the page goes on. Merged, the record is appended to
  \<open>commits_info\<close> and the final segment of its URL enters \<open>processed_commits\<close>.
\<close>

theorem failed_detail_fetch_keeps_record:
  assumes "fetch_commit_details env c = Some (Returned None)" and "sha c \<notin> processed"
  shows "process_commit self env processed position fs c =
           Some (Returned (Some (commit_info_of c)), fs) \<and>
         commits_info (merge_result st (Some (commit_info_of c))) =
           commits_info st @ [commit_info_of c] \<and>
         processed_commits (merge_result st (Some (commit_info_of c))) =
           insert (final_segment (html_url c)) (processed_commits st)"
  using assms by (simp add: process_commit_no_detail merge_result_Some)

theorem failed_detail_fetch_keeps_record_witness:
  "fetch_commit_details demo_env (demo_commit ''a1'' ann) = Some (Returned None) \<and>
   sha (demo_commit ''a1'' ann) \<notin> {} \<and>
   process_commit demo_fetcher demo_env {} 0 Map.empty (demo_commit ''a1'' ann) =
     Some (Returned (Some (commit_info_of (demo_commit ''a1'' ann))), Map.empty)"
  using failed_detail_fetch_keeps_record
    [OF fetch_details_demo, of "demo_commit ''a1'' ann" "{}" demo_fetcher 0 Map.empty empty_progress]
  by (simp add: fetch_details_demo)

text \<open>
  The claim as stated fails: the detail endpoint of the small repository cannot be
  reached, and the commit is recorded and marked processed all the same.
\<close>

theorem failed_detail_fetch_counterexample:
  "fetch_commit_details demo_env (demo_commit ''a1'' ann) = Some (Returned None) \<and>
   state (run_page demo_fetcher demo_env [demo_commit ''a1'' ann] [Run 0, Finish 0, Collect 0]
            empty_progress Map.empty) =
     \<lparr>commits_info = [\<lparr>Commit_URL = ''https://github.com/octo/demo/commit/a1'',
                        Author_Name = ''Ann'',
                        Author_URL = ''https://github.com/ann'',
                        Commit_Date = ''2024-05-01T10:00:00Z'',
                        Commit_Message = ''fix''\<rparr>],
      processed_commits = {''a1''}\<rparr>"
proof -
  have "state (run_page demo_fetcher demo_env [demo_commit ''a1'' ann] [Run 0, Finish 0, Collect 0]
            empty_progress Map.empty) =
     \<lparr>commits_info = [commit_info_of (demo_commit ''a1'' ann)], processed_commits = {''a1''}\<rparr>"
    by (simp add: run_page_def empty_progress_def process_commit_demo merge_result_Some
        final_segment_demo_commit)
  then show ?thesis
    by (simp add: fetch_details_demo commit_info_of_def author_url_of_def demo_commit_def ann_def)
qed

section \<open>The Progress State across a page\<close>

text \<open>
  C2, as the code has it. Whatever the schedule of the workers, a page merge keeps a
  Progress State free of orphans: the identifiers in \<open>processed_commits\<close> stay those of
  the records in \<open>commits_info\<close>. That no two records share an identifier is kept when
  the commits of the page have distinct shas and the URL of each ends in the segment
  that is its sha.
\<close>

theorem page_merge_keeps_no_orphans:
  "(no_orphans st \<longrightarrow> no_orphans (state (run_page self env commits_data sched st fs))) \<and>
   (progress_invariant st \<and> distinct (map sha commits_data) \<and>
    (\<forall>c\<in>set commits_data. final_segment (html_url c) = sha c) \<longrightarrow>
      progress_invariant (state (run_page self env commits_data sched st fs)))"
proof -
  have "pending_fresh commits_data
     \<lparr>state = st, disk = fs, seen = Map.empty, finished = Map.empty, collected = [],
      reraised = None\<rparr>"
    by (simp add: pending_fresh_def)
  then show ?thesis
    unfolding run_page_def
    using foldl_page_step_no_orphans [of _ self env commits_data sched]
      foldl_page_step_invariant [of commits_data _ self env sched]
    by auto
qed

theorem page_merge_keeps_no_orphans_witness:
  "progress_invariant empty_progress \<and>
   distinct (map sha (demo_page 1)) \<and>
   progress_invariant (state (run_page demo_fetcher demo_env (demo_page 1) (all_then_merge 1)
      empty_progress Map.empty)) \<and>
   no_orphans (state (run_page demo_fetcher demo_env (demo_page 1) (all_then_merge 1)
      empty_progress Map.empty))"
proof -
  have a: "progress_invariant empty_progress"
    by (simp add: progress_invariant_def no_orphans_def empty_progress_def)
  have b: "distinct (map sha (demo_page 1))" by (simp add: demo_page_def sha_demo_commit)
  have c: "\<forall>c\<in>set (demo_page 1). final_segment (html_url c) = sha c"
    by (simp add: demo_page_def sha_demo_commit final_segment_demo_commit)
  from page_merge_keeps_no_orphans [of empty_progress demo_fetcher demo_env "demo_page 1"
      "all_then_merge 1" Map.empty] a b c
  show ?thesis by (simp add: progress_invariant_def)
qed

text \<open>
  With the same commit twice on a page, both workers pass the skip test before the
  first record is merged, and the record is entered twice.
\<close>

theorem duplicate_on_page_counterexample:
  "progress_invariant empty_progress \<and>
   page_end_of [demo_commit ''a1'' ann, demo_commit ''a1'' ann]
     (run_page demo_fetcher demo_env [demo_commit ''a1'' ann, demo_commit ''a1'' ann]
        (all_then_merge 1) empty_progress Map.empty) = Page_done \<and>
   \<not> progress_invariant
      (state (run_page demo_fetcher demo_env [demo_commit ''a1'' ann, demo_commit ''a1'' ann]
        (all_then_merge 1) empty_progress Map.empty))"
proof -
  have "progress_invariant empty_progress"
    by (simp add: progress_invariant_def no_orphans_def empty_progress_def)
  moreover have "page_end_of [demo_commit ''a1'' ann, demo_commit ''a1'' ann]
     (run_page demo_fetcher demo_env [demo_commit ''a1'' ann, demo_commit ''a1'' ann]
        (all_then_merge 1) empty_progress Map.empty) = Page_done"
    by (simp add: page_end_of_def run_page_def all_then_merge_def empty_progress_def
        process_commit_demo sha_demo_commit)
  moreover have "\<not> progress_invariant
      (state (run_page demo_fetcher demo_env [demo_commit ''a1'' ann, demo_commit ''a1'' ann]
        (all_then_merge 1) empty_progress Map.empty))"
    unfolding run_page_demo_twice by (simp add: progress_invariant_def)
  ultimately show ?thesis by blast
qed

section \<open>Merging twice\<close>

text \<open>
  C3, as the code has it. Merging the same record a second time is no error and leaves
  \<open>processed_commits\<close> as it is, but appends a second copy of the record to
  \<open>commits_info\<close>. A repeated item is without effect only through the skip test of the
  worker: once the record of a commit whose URL ends in the segment that is its sha has
  been merged, \<open>process_commit\<close> returns \<open>None\<close> for it and touches no file, and
  merging \<open>None\<close> changes nothing.
\<close>

theorem second_merge_appends:
  "processed_commits (merge_result (merge_result st (Some ci)) (Some ci)) =
     processed_commits (merge_result st (Some ci)) \<and>
   commits_info (merge_result (merge_result st (Some ci)) (Some ci)) =
     commits_info (merge_result st (Some ci)) @ [ci] \<and>
   (final_segment (html_url c) = sha c \<longrightarrow>
      process_commit self env (processed_commits (merge_result st (Some (commit_info_of c))))
          position fs c = Some (Returned None, fs) \<and>
      merge_result (merge_result st (Some (commit_info_of c))) None =
        merge_result st (Some (commit_info_of c)))"
  by (auto simp: merge_result_Some merge_result_None process_commit_skip)

theorem second_merge_appends_witness:
  "final_segment (html_url (demo_commit ''a1'' ann)) = sha (demo_commit ''a1'' ann) \<and>
   process_commit demo_fetcher demo_env
     (processed_commits (merge_result empty_progress (Some (commit_info_of (demo_commit ''a1'' ann)))))
     1 Map.empty (demo_commit ''a1'' ann) = Some (Returned None, Map.empty) \<and>
   length (commits_info (merge_result (merge_result empty_progress
       (Some (commit_info_of (demo_commit ''a1'' ann)))) (Some (commit_info_of (demo_commit ''a1'' ann))))) = 2"
proof -
  have seg: "final_segment (html_url (demo_commit ''a1'' ann)) = sha (demo_commit ''a1'' ann)"
    by (simp add: sha_demo_commit final_segment_demo_commit)
  from second_merge_appends [of empty_progress "commit_info_of (demo_commit ''a1'' ann)"
      "demo_commit ''a1'' ann" demo_fetcher demo_env 1 Map.empty] seg
  show ?thesis by (simp add: merge_result_Some empty_progress_def)
qed

text \<open>The state after the second merge differs from the state after the first.\<close>

theorem merge_not_idempotent_counterexample:
  "merge_result (merge_result empty_progress (Some (commit_info_of (demo_commit ''a1'' ann))))
     (Some (commit_info_of (demo_commit ''a1'' ann)))
   \<noteq> merge_result empty_progress (Some (commit_info_of (demo_commit ''a1'' ann)))"
  by (simp add: merge_result_Some empty_progress_def)

section \<open>The stop identifier\<close>

text \<open>
  C4, as the code has it. Let the stop identifier be configured and not empty, and let
  page \<open>p\<close> be the first that lists it, at any position. Let the listing requests for
  the pages 1 to \<open>p\<close> return non-empty pages, let every worker of these pages return
  and be collected, and let the progress file be writable. Then the run, given room
  for \<open>p\<close> iterations, finishes; it requests the listings of the pages 1 to \<open>p\<close> in
  this order and no other, so never that of page \<open>p + 1\<close>; every commit listed on
  these pages, also after the stop identifier, has its record among the records of the
  final state or its sha among the processed identifiers; the state it started from is
  kept; and the progress file holds the checkpoint of the final state.
\<close>

theorem stops_after_page_of_stop_identifier:
  assumes "commit_hash_end self = Some h" and "h \<noteq> []"
    and "1 \<le> p" and "p \<le> fuel"
    and "\<forall>n. 1 \<le> n \<and> n \<le> p \<longrightarrow>
        fetch_commits self env n = Some (Returned (Some (pages n))) \<and> pages n \<noteq> [] \<and>
        serves (length (pages n)) (sched n) \<and>
        (\<forall>c\<in>set (pages n). worker_returns self env c)"
    and "\<forall>fs. \<not> os_error (rt env) fs (progress_file self)"
    and "\<forall>n. 1 \<le> n \<and> n < p \<longrightarrow> h \<notin> set (map sha (pages n))"
    and "h \<in> set (map sha (pages p))"
  shows "\<exists>steps st' fs'.
           process_commits fuel self env sched st fs = (Finished, steps, st', fs') \<and>
           fetched_pages steps = [1..<Suc p] \<and>
           (\<forall>fs_n. Fetch_listing (Suc p) fs_n \<notin> set steps) \<and>
           (\<forall>n. 1 \<le> n \<and> n \<le> p \<longrightarrow>
              (\<forall>c\<in>set (pages n).
                 commit_info_of c \<in> set (commits_info st') \<or> sha c \<in> processed_commits st')) \<and>
           set (commits_info st) \<subseteq> set (commits_info st') \<and>
           processed_commits st \<subseteq> processed_commits st' \<and>
           fs' (progress_file self) =
             Some (json_dump_progress (commits_info st')
                     (py_list (rt env) (processed_commits st')))"
proof -
  have "p - 1 < fuel" using assms(3,4) by simp
  from stops_from_page [OF assms(1,2,5,6,7,8) _ assms(3) this, of st fs]
  obtain steps st' fs' where
    run: "process_commits_from fuel self env sched 1 st fs = (Finished, steps, st', fs')"
    and fp: "fetched_pages steps = [1..<Suc p]"
    and ms: "\<forall>n. 1 \<le> n \<and> n \<le> p \<longrightarrow> (\<forall>c\<in>set (pages n). merged_in c st')"
    and gr: "grows st st'"
    and ck: "fs' (progress_file self) = Some (checkpoint_text (rt env) st')"
    by auto
  from fp have nf: "\<forall>fs_n. Fetch_listing (Suc p) fs_n \<notin> set steps"
    using set_fetched_pages [of "Suc p" steps] by simp
  from run fp nf ms gr ck show ?thesis
    unfolding process_commits_def merged_in_def grows_def checkpoint_text_def by blast
qed

theorem stops_after_page_of_stop_identifier_witness:
  "commit_hash_end demo_fetcher = Some ''c3'' \<and>
   ''c3'' \<notin> set (map sha (demo_page 1)) \<and>
   ''c3'' \<in> set (map sha (demo_page 2)) \<and>
   demo_commit ''d4'' ann \<in> set (demo_page 2) \<and>
   (\<exists>steps st' fs'.
      process_commits 2 demo_fetcher demo_env all_then_merge empty_progress Map.empty =
        (Finished, steps, st', fs') \<and>
      fetched_pages steps = [1, 2] \<and>
      (commit_info_of (demo_commit ''d4'' ann) \<in> set (commits_info st') \<or>
       sha (demo_commit ''d4'' ann) \<in> processed_commits st') \<and>
      fs' (progress_file demo_fetcher) =
        Some (json_dump_progress (commits_info st')
                (py_list (rt demo_env) (processed_commits st'))))"
proof -
  have h: "commit_hash_end demo_fetcher = Some ''c3''" "''c3'' \<noteq> []"
    by (simp_all add: demo_fetcher_def)
  have bounds: "(1::nat) \<le> 2" "(2::nat) \<le> 2" by simp_all
  have pages: "\<forall>n. 1 \<le> n \<and> n \<le> 2 \<longrightarrow>
        fetch_commits demo_fetcher demo_env n = Some (Returned (Some (demo_page n))) \<and>
        demo_page n \<noteq> [] \<and>
        serves (length (demo_page n)) (all_then_merge n) \<and>
        (\<forall>c\<in>set (demo_page n). worker_returns demo_fetcher demo_env c)"
    using length_demo_page
    by (auto simp: fetch_commits_demo worker_returns_demo serves_all_then_merge
        demo_page_nonempty)
  have disk: "\<forall>fs. \<not> os_error (rt demo_env) fs (progress_file demo_fetcher)"
    by (simp add: rt_demo_env os_error_demo)
  have first: "\<forall>n. 1 \<le> n \<and> n < 2 \<longrightarrow> ''c3'' \<notin> set (map sha (demo_page n))"
    by (auto simp: demo_page_def sha_demo_commit)
  have found: "''c3'' \<in> set (map sha (demo_page 2))"
    by (simp add: demo_page_def sha_demo_commit)
  have d4: "demo_commit ''d4'' ann \<in> set (demo_page 2)" by (simp add: demo_page_def)
  have c3: "''c3'' \<notin> set (map sha (demo_page 1))" by (simp add: demo_page_def sha_demo_commit)
  have "\<exists>steps st' fs'.
           process_commits 2 demo_fetcher demo_env all_then_merge empty_progress Map.empty =
             (Finished, steps, st', fs') \<and>
           fetched_pages steps = [1..<Suc 2] \<and>
           (\<forall>fs_n. Fetch_listing (Suc 2) fs_n \<notin> set steps) \<and>
           (\<forall>n. 1 \<le> n \<and> n \<le> 2 \<longrightarrow>
              (\<forall>c\<in>set (demo_page n).
                 commit_info_of c \<in> set (commits_info st') \<or> sha c \<in> processed_commits st')) \<and>
           set (commits_info empty_progress) \<subseteq> set (commits_info st') \<and>
           processed_commits empty_progress \<subseteq> processed_commits st' \<and>
           fs' (progress_file demo_fetcher) =
             Some (json_dump_progress (commits_info st')
                     (py_list (rt demo_env) (processed_commits st')))"
    by (rule stops_after_page_of_stop_identifier [OF h bounds pages disk first found])
  then obtain steps st' fs' where
    run: "process_commits 2 demo_fetcher demo_env all_then_merge empty_progress Map.empty =
             (Finished, steps, st', fs')"
    and fp: "fetched_pages steps = [1..<Suc 2]"
    and ms: "\<forall>n. 1 \<le> n \<and> n \<le> 2 \<longrightarrow>
              (\<forall>c\<in>set (demo_page n).
                 commit_info_of c \<in> set (commits_info st') \<or> sha c \<in> processed_commits st')"
    and ck: "fs' (progress_file demo_fetcher) =
             Some (json_dump_progress (commits_info st')
                     (py_list (rt demo_env) (processed_commits st')))"
    by (elim exE conjE) (erule that)
  have fp': "fetched_pages steps = [1, 2]" using fp by (simp add: upt_rec)
  from ms bounds have "\<forall>c\<in>set (demo_page 2).
      commit_info_of c \<in> set (commits_info st') \<or> sha c \<in> processed_commits st'"
    by blast
  with d4 have m4: "commit_info_of (demo_commit ''d4'' ann) \<in> set (commits_info st') \<or>
       sha (demo_commit ''d4'' ann) \<in> processed_commits st'"
    by blast
  from run fp' m4 ck have "\<exists>steps st' fs'.
      process_commits 2 demo_fetcher demo_env all_then_merge empty_progress Map.empty =
        (Finished, steps, st', fs') \<and>
      fetched_pages steps = [1, 2] \<and>
      (commit_info_of (demo_commit ''d4'' ann) \<in> set (commits_info st') \<or>
       sha (demo_commit ''d4'' ann) \<in> processed_commits st') \<and>
      fs' (progress_file demo_fetcher) =
        Some (json_dump_progress (commits_info st')
                (py_list (rt demo_env) (processed_commits st')))"
    by (intro exI conjI)
  with h(1) c3 found d4 show ?thesis by (intro conjI)
qed

text \<open>
  Without these conditions the run need not reach the end of page \<open>p\<close>. The stop
  identifier is on page 2, and the detail endpoint answers 403 without end: the workers
  of page 1 never finish, no commit is merged, and page 2 is never requested.
\<close>

theorem stuck_before_stop_identifier_counterexample:
  "commit_hash_end demo_fetcher = Some ''c3'' \<and>
   fetch_commits demo_fetcher stuck_env 2 = Some (Returned (Some (demo_page 2))) \<and>
   ''c3'' \<in> set (map sha (demo_page 2)) \<and>
   fetch_commit_details stuck_env (demo_commit ''a1'' ann) = None \<and>
   process_commits 5 demo_fetcher stuck_env all_then_merge empty_progress Map.empty =
     (Never_returns, [Fetch_listing 1 Map.empty], empty_progress, Map.empty)"
proof -
  have page: "run_page demo_fetcher stuck_env (demo_page 1) (all_then_merge 1) empty_progress
        Map.empty =
      \<lparr>state = empty_progress, disk = Map.empty, seen = [0 \<mapsto> {}, 1 \<mapsto> {}],
       finished = Map.empty, collected = [], reraised = None\<rparr>"
    by (simp add: run_page_def all_then_merge_def demo_page_def empty_progress_def
        process_commit_stuck)
  have wait: "page_end_of (demo_page 1)
      (run_page demo_fetcher stuck_env (demo_page 1) (all_then_merge 1) empty_progress Map.empty) =
      Page_waiting"
    unfolding page by (simp add: page_end_of_def demo_page_def)
  have "process_commits_from (Suc 4) demo_fetcher stuck_env all_then_merge 1 empty_progress
        Map.empty =
     (Never_returns, [Fetch_listing 1 Map.empty], empty_progress, Map.empty)"
    unfolding process_commits_from_waiting
        [of demo_fetcher stuck_env 1 "demo_page 1" all_then_merge empty_progress Map.empty,
          OF fetch_commits_stuck demo_page_nonempty wait] page
    by simp
  moreover have "(5::nat) = Suc 4" by simp
  ultimately have "process_commits 5 demo_fetcher stuck_env all_then_merge empty_progress Map.empty =
     (Never_returns, [Fetch_listing 1 Map.empty], empty_progress, Map.empty)"
    by (simp only: process_commits_def)
  then show ?thesis
    by (simp add: fetch_commits_stuck fetch_details_stuck demo_fetcher_def demo_page_def
        sha_demo_commit)
qed

section \<open>A crash during a checkpoint\<close>

text \<open>
  C5, as the code has it. \<open>save_progress\<close> rewrites the progress file in place. A
  process that dies before \<open>open\<close> leaves the files as they were; one that dies later
  leaves in the progress file a prefix of the new text, the empty text right after
  \<open>open\<close> and the whole text in the end, and leaves every other file alone. A
  \<open>save_progress\<close> that returns has written the whole text, which is never empty; one
  that cannot open the file raises. \<open>load_progress\<close> raises on the empty file
  whenever \<open>json.load\<close> rejects the empty text.
\<close>

theorem crash_leaves_old_file_or_prefix:
  "(cp = Before_open \<longrightarrow> save_progress_crash cp self py st fs = fs) \<and>
   (\<forall>n. cp = After_open n \<longrightarrow>
      save_progress_crash cp self py st fs (progress_file self) =
        Some (take n (json_dump_progress (commits_info st) (py_list py (processed_commits st)))) \<and>
      (length (json_dump_progress (commits_info st) (py_list py (processed_commits st))) \<le> n \<and>
       \<not> os_error py fs (progress_file self) \<longrightarrow>
         save_progress self py st fs = Returned (save_progress_crash cp self py st fs))) \<and>
   (\<forall>f. f \<noteq> progress_file self \<longrightarrow> save_progress_crash cp self py st fs f = fs f) \<and>
   (\<forall>fs'. save_progress self py st fs = Returned fs' \<longrightarrow>
      fs' (progress_file self) =
        Some (json_dump_progress (commits_info st) (py_list py (processed_commits st))) \<and>
      fs' (progress_file self) \<noteq> Some []) \<and>
   (os_error py fs (progress_file self) \<longrightarrow> save_progress self py st fs = Raised OSError) \<and>
   (json_load [] = None \<longrightarrow>
      load_progress json_load self (save_progress_crash (After_open 0) self py st fs) =
        Raised ValueError)"
  by (auto simp: save_progress_crash_def save_progress_def load_progress_def
      json_dump_progress_nonempty split: crash_point.splits if_splits)

theorem crash_leaves_old_file_or_prefix_witness:
  "save_progress_crash (After_open 1) demo_fetcher demo_runtime one_commit_progress first_checkpoint
     (progress_file demo_fetcher) = Some ''{'' \<and>
   \<not> os_error demo_runtime first_checkpoint (progress_file demo_fetcher) \<and>
   load_progress (\<lambda>text. if text = [] then None else Some (None, None)) demo_fetcher
     (save_progress_crash (After_open 0) demo_fetcher demo_runtime one_commit_progress
        first_checkpoint) =
     Raised ValueError"
  using crash_leaves_old_file_or_prefix [of "After_open 1" demo_fetcher demo_runtime
      one_commit_progress first_checkpoint "\<lambda>text. if text = [] then None else Some (None, None)"]
  by (simp add: json_dump_progress_def json_object_def demo_runtime_def)

text \<open>
  After a complete first checkpoint, a crash right after \<open>open\<close> leaves a progress
  file that holds neither the previous text nor the new one.
\<close>

theorem truncated_progress_file_counterexample:
  "save_progress demo_fetcher demo_runtime empty_progress Map.empty = Returned first_checkpoint \<and>
   first_checkpoint (progress_file demo_fetcher) = Some (json_dump_progress [] []) \<and>
   json_dump_progress [] [] \<noteq> [] \<and>
   save_progress demo_fetcher demo_runtime one_commit_progress first_checkpoint =
     Returned (first_checkpoint(progress_file demo_fetcher \<mapsto>
                 checkpoint_text demo_runtime one_commit_progress)) \<and>
   checkpoint_text demo_runtime one_commit_progress \<noteq> [] \<and>
   save_progress_crash (After_open 0) demo_fetcher demo_runtime one_commit_progress first_checkpoint
     (progress_file demo_fetcher) = Some []"
  by (simp add: save_progress_empty_demo)
     (simp add: first_checkpoint_def save_progress_def save_progress_crash_def
      json_dump_progress_nonempty checkpoint_text_def demo_runtime_def)

section \<open>What the rate limit governor returns\<close>

text \<open>
  C6, as the code has it. \<open>handle_rate_limit\<close> returns true exactly when the status
  is 403, the remaining-quota header holds the integer zero, the reset header is present
  and holds an integer, the subtraction of the clock from it does not overflow, and,
  the difference being positive, \<open>time.sleep\<close> takes it; it has then slept for that
  difference, and not at all when the difference is not positive. It returns false
  exactly for the other responses (another status, no remaining-quota header, or a
  quota that is an integer other than zero) and has not slept then. In what is left (a
  403 whose headers are missing or no integers, or an overflow) it raises. When the
  float subtraction is exact, a sleep ends no earlier than the reset time.
\<close>

theorem handle_rate_limit_decides:
  "(handle_rate_limit py response now = Returned (True, slept) \<longleftrightarrow>
      status_code response = 403 \<and>
      (\<exists>v t reset_time d.
         headers response ''X-RateLimit-Remaining'' = Some v \<and> py_int py v = Some 0 \<and>
         headers response ''X-RateLimit-Reset'' = Some t \<and> py_int py t = Some reset_time \<and>
         int_minus_float py reset_time now = Some d \<and>
         (if d > 0 then \<not> sleep_overflows py d \<and> slept = Some d else slept = None))) \<and>
   (handle_rate_limit py response now = Returned (False, slept) \<longleftrightarrow>
      slept = None \<and>
      (status_code response \<noteq> 403 \<or>
       headers response ''X-RateLimit-Remaining'' = None \<or>
       (\<exists>v remaining. headers response ''X-RateLimit-Remaining'' = Some v \<and>
          py_int py v = Some remaining \<and> remaining \<noteq> 0))) \<and>
   (\<forall>t reset_time d.
      handle_rate_limit py response now = Returned (True, Some d) \<and>
      headers response ''X-RateLimit-Reset'' = Some t \<and> py_int py t = Some reset_time \<and>
      int_minus_float py reset_time now = Some (real_of_int reset_time - now) \<longrightarrow>
        now + d \<ge> real_of_int reset_time)"
  by (auto simp: handle_rate_limit_def Let_def split: option.splits if_splits)

theorem handle_rate_limit_decides_witness:
  "handle_rate_limit demo_runtime quota_exhausted 1700000000.5 = Returned (True, Some 59.5) \<and>
   int_minus_float demo_runtime 1700000060 1700000000.5 = Some (real_of_int 1700000060 - 1700000000.5) \<and>
   (1700000000.5 :: real) + 59.5 \<ge> real_of_int 1700000060 \<and>
   handle_rate_limit demo_runtime
     (\<lparr>status_code = 200, headers = Map.empty, json = None\<rparr> :: unit response) 0 =
     Returned (False, None)"
proof -
  have a: "handle_rate_limit demo_runtime quota_exhausted 1700000000.5 = Returned (True, Some 59.5)"
    by (simp add: handle_rate_limit_def quota_exhausted_def demo_runtime_def decimal_def)
  have b: "int_minus_float demo_runtime 1700000060 1700000000.5 =
      Some (real_of_int 1700000060 - 1700000000.5)"
    by (simp add: demo_runtime_def)
  have c: "headers quota_exhausted ''X-RateLimit-Reset'' = Some ''1700000060''"
    by (simp add: quota_exhausted_def)
  have d: "py_int demo_runtime ''1700000060'' = Some 1700000060"
    by (simp add: demo_runtime_def decimal_def)
  from handle_rate_limit_decides [of demo_runtime quota_exhausted "1700000000.5" "Some 59.5"]
  have "now + d \<ge> real_of_int reset_time"
    if "handle_rate_limit demo_runtime quota_exhausted 1700000000.5 = Returned (True, Some d)"
      "headers quota_exhausted ''X-RateLimit-Reset'' = Some t" "py_int demo_runtime t = Some reset_time"
      "int_minus_float demo_runtime reset_time 1700000000.5 = Some (real_of_int reset_time - 1700000000.5)"
      "now = 1700000000.5"
    for t reset_time d now
    using that by blast
  from this [OF a c d b] a b
  show ?thesis
    by (simp add: handle_rate_limit_def)
qed

text \<open>
  A 403 with a remaining quota of zero and no reset header: the status, the header and
  the quota are as the claim asks, and \<open>handle_rate_limit\<close> raises \<open>KeyError\<close>
  instead of returning true.
\<close>

theorem missing_reset_header_counterexample:
  "status_code reset_missing = 403 \<and>
   headers reset_missing ''X-RateLimit-Remaining'' = Some ''0'' \<and>
   py_int demo_runtime ''0'' = Some 0 \<and>
   handle_rate_limit demo_runtime reset_missing 0 = Raised KeyError"
  by (simp add: reset_missing_def handle_rate_limit_def demo_runtime_def decimal_def)

section \<open>One page is flushed before the next is requested\<close>

text \<open>
  C7. In the log of every run, finished or cut off, the listing requests are for the
  pages 1, 2, 3, ... in this order. The request for page \<open>n + 1\<close> comes right after
  the merge of page \<open>n\<close>, the return of \<open>save_progress\<close> and the pause. When it is
  sent, the files are those \<open>save_progress\<close> returned for the state merged: the
  progress file holds the checkpoint of that state. In that state every commit listed
  on the pages 1 to \<open>n\<close> has its record among the records or its sha among the
  processed identifiers, and nothing of the state the run started from is lost. At the
  merge of a page the future of every commit of its listing has been collected.
\<close>

theorem page_flushed_before_next_fetch:
  assumes "process_commits fuel self env sched st fs = (e, steps, st', fs')"
  shows "fetched_pages steps = [1..<Suc (length (fetched_pages steps))] \<and>
         (\<forall>pre n fs_n post. steps = pre @ Fetch_listing (Suc n) fs_n # post \<and> 0 < n \<longrightarrow>
            (\<exists>pre' got st_n fs0.
               pre = pre' @ [Page_merged n got st_n, Save_progress st_n, Sleep 6] \<and>
               save_progress self (rt env) st_n fs0 = Returned fs_n \<and>
               fs_n (progress_file self) =
                 Some (json_dump_progress (commits_info st_n)
                         (py_list (rt env) (processed_commits st_n))) \<and>
               (\<forall>m. 1 \<le> m \<and> m \<le> n \<longrightarrow>
                  (\<exists>commits_data.
                     fetch_commits self env m = Some (Returned (Some commits_data)) \<and>
                     (\<forall>c\<in>set commits_data.
                        commit_info_of c \<in> set (commits_info st_n) \<or>
                        sha c \<in> processed_commits st_n))) \<and>
               set (commits_info st) \<subseteq> set (commits_info st_n) \<and>
               processed_commits st \<subseteq> processed_commits st_n)) \<and>
         (\<forall>n got st_n. Page_merged n got st_n \<in> set steps \<longrightarrow>
            (\<exists>commits_data. fetch_commits self env n = Some (Returned (Some commits_data)) \<and>
               (\<forall>i<length commits_data. i \<in> set got)))"
proof -
  from assms have r: "rounds_from self env 1 st fs steps"
    unfolding process_commits_def by (rule process_commits_from_rounds)
  have a: "fetched_pages steps = [1..<Suc (length (fetched_pages steps))]"
    using rounds_from_fetched_pages [OF r] by simp
  have b: "\<exists>pre' got st_n fs0.
               pre = pre' @ [Page_merged n got st_n, Save_progress st_n, Sleep 6] \<and>
               save_progress self (rt env) st_n fs0 = Returned fs_n \<and>
               fs_n (progress_file self) =
                 Some (json_dump_progress (commits_info st_n)
                         (py_list (rt env) (processed_commits st_n))) \<and>
               (\<forall>m. 1 \<le> m \<and> m \<le> n \<longrightarrow>
                  (\<exists>commits_data.
                     fetch_commits self env m = Some (Returned (Some commits_data)) \<and>
                     (\<forall>c\<in>set commits_data.
                        commit_info_of c \<in> set (commits_info st_n) \<or>
                        sha c \<in> processed_commits st_n))) \<and>
               set (commits_info st) \<subseteq> set (commits_info st_n) \<and>
               processed_commits st \<subseteq> processed_commits st_n"
    if "steps = pre @ Fetch_listing (Suc n) fs_n # post" "0 < n" for pre n fs_n post
  proof -
    from rounds_from_before_fetch [OF r that(1)] that(2)
    obtain pre' got st_n fs0 where
      p: "pre = pre' @ [Page_merged n got st_n, Save_progress st_n, Sleep 6]"
      and sv: "save_progress self (rt env) st_n fs0 = Returned fs_n"
      and gr: "grows st st_n"
      and ms: "\<forall>m. 1 \<le> m \<and> m < Suc n \<longrightarrow>
            (\<exists>cs. fetch_commits self env m = Some (Returned (Some cs)) \<and>
                  (\<forall>c\<in>set cs. merged_in c st_n))"
      by auto
    from save_progress_Returned [OF sv]
    have content: "fs_n (progress_file self) =
        Some (json_dump_progress (commits_info st_n) (py_list (rt env) (processed_commits st_n)))"
      by (simp add: checkpoint_text_def)
    from ms have ms': "\<forall>m. 1 \<le> m \<and> m \<le> n \<longrightarrow>
                  (\<exists>commits_data.
                     fetch_commits self env m = Some (Returned (Some commits_data)) \<and>
                     (\<forall>c\<in>set commits_data.
                        commit_info_of c \<in> set (commits_info st_n) \<or>
                        sha c \<in> processed_commits st_n))"
      by (simp add: merged_in_def less_Suc_eq_le)
    from p sv content ms' gr show ?thesis unfolding grows_def by blast
  qed
  have c: "\<exists>commits_data. fetch_commits self env n = Some (Returned (Some commits_data)) \<and>
               (\<forall>i<length commits_data. i \<in> set got)"
    if "Page_merged n got st_n \<in> set steps" for n got st_n
    using process_commits_from_merged [OF assms [unfolded process_commits_def] that] .
  from a b c show ?thesis by blast
qed

theorem page_flushed_before_next_fetch_witness:
  "process_commits 5 demo_fetcher demo_env all_then_merge empty_progress Map.empty =
     (Finished, demo_steps, demo_state_2, demo_files_2) \<and>
   fetched_pages demo_steps = [1, 2] \<and>
   (\<exists>pre' got st_n fs0.
      [Fetch_listing 1 Map.empty, Page_merged 1 [0, 1] demo_state_1,
       Save_progress demo_state_1, Sleep 6] =
        pre' @ [Page_merged 1 got st_n, Save_progress st_n, Sleep 6] \<and>
      save_progress demo_fetcher (rt demo_env) st_n fs0 = Returned demo_files_1 \<and>
      demo_files_1 (progress_file demo_fetcher) =
        Some (json_dump_progress (commits_info st_n)
                (py_list (rt demo_env) (processed_commits st_n))) \<and>
      (\<exists>commits_data.
         fetch_commits demo_fetcher demo_env 1 = Some (Returned (Some commits_data)) \<and>
         (\<forall>c\<in>set commits_data.
            commit_info_of c \<in> set (commits_info st_n) \<or> sha c \<in> processed_commits st_n))) \<and>
   (\<exists>commits_data. fetch_commits demo_fetcher demo_env 2 = Some (Returned (Some commits_data)) \<and>
      (\<forall>i<length commits_data. i \<in> set [0, 1]))"
proof -
  let ?pre = "[Fetch_listing 1 Map.empty, Page_merged 1 [0, 1] demo_state_1,
               Save_progress demo_state_1, Sleep 6]"
  let ?post = "[Page_merged 2 [0, 1] demo_state_2, Save_progress demo_state_2, Sleep 6]"
  note flushed = page_flushed_before_next_fetch [OF demo_run]
  have split: "demo_steps = ?pre @ Fetch_listing (Suc 1) demo_files_1 # ?post \<and> (0::nat) < 1"
    by (simp add: demo_steps_def)
  have merged: "Page_merged 2 [0, 1] demo_state_2 \<in> set demo_steps" by (simp add: demo_steps_def)
  have pages: "fetched_pages demo_steps = [1, 2]" by (simp add: demo_steps_def)
  from flushed [THEN conjunct2, THEN conjunct1, rule_format, OF split]
  obtain pre' got st_n fs0 where
    a: "?pre = pre' @ [Page_merged 1 got st_n, Save_progress st_n, Sleep 6]"
    and b: "save_progress demo_fetcher (rt demo_env) st_n fs0 = Returned demo_files_1"
    and c: "demo_files_1 (progress_file demo_fetcher) =
        Some (json_dump_progress (commits_info st_n)
                (py_list (rt demo_env) (processed_commits st_n)))"
    and d: "\<forall>m. 1 \<le> m \<and> m \<le> 1 \<longrightarrow>
                  (\<exists>commits_data.
                     fetch_commits demo_fetcher demo_env m = Some (Returned (Some commits_data)) \<and>
                     (\<forall>c\<in>set commits_data.
                        commit_info_of c \<in> set (commits_info st_n) \<or>
                        sha c \<in> processed_commits st_n))"
    by blast
  from d have d1: "\<exists>commits_data.
         fetch_commits demo_fetcher demo_env 1 = Some (Returned (Some commits_data)) \<and>
         (\<forall>c\<in>set commits_data.
            commit_info_of c \<in> set (commits_info st_n) \<or> sha c \<in> processed_commits st_n)"
    by simp
  from flushed [THEN conjunct2, THEN conjunct2, rule_format, OF merged]
  have e: "\<exists>commits_data. fetch_commits demo_fetcher demo_env 2 = Some (Returned (Some commits_data)) \<and>
      (\<forall>i<length commits_data. i \<in> set [0, 1])" .
  from a b c d1 have "\<exists>pre' got st_n fs0.
      ?pre = pre' @ [Page_merged 1 got st_n, Save_progress st_n, Sleep 6] \<and>
      save_progress demo_fetcher (rt demo_env) st_n fs0 = Returned demo_files_1 \<and>
      demo_files_1 (progress_file demo_fetcher) =
        Some (json_dump_progress (commits_info st_n)
                (py_list (rt demo_env) (processed_commits st_n))) \<and>
      (\<exists>commits_data.
         fetch_commits demo_fetcher demo_env 1 = Some (Returned (Some commits_data)) \<and>
         (\<forall>c\<in>set commits_data.
            commit_info_of c \<in> set (commits_info st_n) \<or> sha c \<in> processed_commits st_n))"
    by blast
  with demo_run pages e show ?thesis by (intro conjI)
qed

section \<open>The shape of a record\<close>

text \<open>
  C8, as the code has it. Every record \<open>process_commit\<close> returns holds the
  \<open>html_url\<close> of the commit, the name of its author, the profile URL
  \<open>https://github.com/\<close> followed by the login, or \<open>N/A\<close> when the commit has no
  author object, and the date string and the message of the listing, unchanged.
\<close>

theorem process_commit_record_shape:
  assumes "process_commit self env processed position fs c = Some (Returned (Some r), fs')"
  shows "r = \<lparr>Commit_URL = html_url c,
              Author_Name = commit_author_name c,
              Author_URL = (case author c of
                              None \<Rightarrow> ''N/A''
                            | Some u \<Rightarrow> ''https://github.com/'' @ login u),
              Commit_Date = commit_author_date c,
              Commit_Message = commit_message c\<rparr>"
  using process_commit_Some [OF assms]
  by (simp add: commit_info_of_def author_url_of_def split: option.splits)

theorem process_commit_record_shape_witness:
  "process_commit demo_fetcher demo_env {} 0 Map.empty (demo_commit ''a1'' ann) =
     Some (Returned (Some (commit_info_of (demo_commit ''a1'' ann))), Map.empty) \<and>
   commit_info_of (demo_commit ''a1'' ann) =
     \<lparr>Commit_URL = ''https://github.com/octo/demo/commit/a1'',
      Author_Name = ''Ann'',
      Author_URL = ''https://github.com/ann'',
      Commit_Date = ''2024-05-01T10:00:00Z'',
      Commit_Message = ''fix''\<rparr>"
proof -
  have run: "process_commit demo_fetcher demo_env {} 0 Map.empty (demo_commit ''a1'' ann) =
     Some (Returned (Some (commit_info_of (demo_commit ''a1'' ann))), Map.empty)"
    by (simp add: process_commit_demo)
  from process_commit_record_shape [OF run] run show ?thesis
    by (simp add: demo_commit_def ann_def)
qed

text \<open>For a commit without author the field is \<open>N/A\<close>, not \<open>unknown\<close>.\<close>

theorem absent_author_counterexample:
  "author (demo_commit ''b2'' None) = None \<and>
   process_commit demo_fetcher demo_env {} 0 Map.empty (demo_commit ''b2'' None) =
     Some (Returned (Some \<lparr>Commit_URL = ''https://github.com/octo/demo/commit/b2'',
                           Author_Name = ''Ann'',
                           Author_URL = ''N/A'',
                           Commit_Date = ''2024-05-01T10:00:00Z'',
                           Commit_Message = ''fix''\<rparr>), Map.empty) \<and>
   ''N/A'' \<noteq> ''unknown''"
  by (simp add: process_commit_demo) (simp add: commit_info_of_def author_url_of_def demo_commit_def)

section \<open>When the request loop returns\<close>

text \<open>
  C9, as the code has it. \<open>fetch_commits\<close> sends the request again after every
  iteration that ends in \<open>continue\<close>, and these are iterations answered by a 403:
  every 403 on which \<open>handle_rate_limit\<close> does not raise is retried, with quota left
  or not. It returns at the first attempt that is not retried, with no data for a
  transport error, an error status or an undecodable body and with the decoded body
  otherwise. When every attempt is retried it never returns.
\<close>

theorem fetch_commits_returns_at_first_other_than_403:
  "((\<forall>j<k. retries (rt env) (commits_api env (per_page self) page j)) \<and>
    \<not> retries (rt env) (commits_api env (per_page self) page k) \<longrightarrow>
      fetch_commits self env page =
        Some (answer (rt env) (commits_api env (per_page self) page k))) \<and>
   ((\<forall>j. retries (rt env) (commits_api env (per_page self) page j)) \<longrightarrow>
      fetch_commits self env page = None) \<and>
   (\<forall>r now. retries (rt env) (Response r, now) \<longrightarrow> status_code r = 403) \<and>
   (\<forall>r now. status_code r = 403 \<longrightarrow>
      (retries (rt env) (Response (r :: commit list response), now) \<longleftrightarrow>
         (\<exists>limited. handle_rate_limit (rt env) r now = Returned limited)))"
proof -
  have "fetch_commits self env page =
        Some (answer (rt env) (commits_api env (per_page self) page k))"
    if "\<forall>j<k. retries (rt env) (commits_api env (per_page self) page j)"
      and "\<not> retries (rt env) (commits_api env (per_page self) page k)"
    unfolding fetch_commits_def using that by (intro request_loop_returns) auto
  moreover have "fetch_commits self env page = None"
    if "\<forall>j. retries (rt env) (commits_api env (per_page self) page j)"
    unfolding fetch_commits_def using that by (rule request_loop_diverges)
  ultimately show ?thesis using retries_only_403 retries_403 by blast
qed

theorem fetch_commits_returns_at_first_other_than_403_witness:
  "\<not> retries (rt demo_env) (commits_api demo_env (per_page demo_fetcher) 1 0) \<and>
   fetch_commits demo_fetcher demo_env 1 = Some (Returned (Some (demo_page 1))) \<and>
   retries (rt forbidden_env) (commits_api forbidden_env (per_page demo_fetcher) 1 0) \<and>
   fetch_commits demo_fetcher forbidden_env 1 = None"
  using fetch_commits_returns_at_first_other_than_403 [of 0 demo_env demo_fetcher 1]
    fetch_commits_returns_at_first_other_than_403 [of 0 forbidden_env demo_fetcher 1]
  by (auto simp: commits_api_demo commits_api_forbidden not_retries_ok retries_forbidden answer_ok)

text \<open>
  A 403 without rate-limit headers is no quota exhaustion; when every attempt is answered
  so, \<open>fetch_commits\<close> does not return.
\<close>

theorem persistent_403_counterexample:
  "handle_rate_limit demo_runtime
     (\<lparr>status_code = 403, headers = Map.empty, json = None\<rparr> :: commit list response) 0 =
     Returned (False, None) \<and>
   fetch_commits demo_fetcher forbidden_env 1 = None"
  by (simp add: handle_rate_limit_def fetch_commits_def forbidden_env_def
      request_loop_diverges retries_forbidden)

section \<open>The identifier that is recorded\<close>

text \<open>
  C10. The identifier a merge adds to \<open>processed_commits\<close> is the final segment of the
  \<open>html_url\<close> of the commit, not its sha. For a commit whose sha was not in the set,
  the skip test of a later \<open>process_commit\<close> fires exactly when that segment is the
  sha; it is, whenever the URL is some prefix, a \<open>/\<close>, and the sha.
\<close>

theorem recorded_identifier_is_final_segment:
  assumes "process_commit self env processed position fs c = Some (Returned (Some r), fs')"
  shows "processed_commits (merge_result st (Some r)) =
           insert (final_segment (html_url c)) (processed_commits st) \<and>
         (sha c \<notin> processed_commits st \<longrightarrow>
            (process_commit self env (processed_commits (merge_result st (Some r))) position' fs'' c =
               Some (Returned None, fs'')
             \<longleftrightarrow> final_segment (html_url c) = sha c)) \<and>
         (\<forall>p. html_url c = p @ ''/'' @ sha c \<and> CHR ''/'' \<notin> set (sha c) \<longrightarrow>
              final_segment (html_url c) = sha c)"
  using process_commit_Some [OF assms]
  by (auto simp: merge_result_Some process_commit_skip final_segment_append)

theorem recorded_identifier_is_final_segment_witness:
  "process_commit demo_fetcher demo_env {} 0 Map.empty (demo_commit ''a1'' ann) =
     Some (Returned (Some (commit_info_of (demo_commit ''a1'' ann))), Map.empty) \<and>
   sha (demo_commit ''a1'' ann) \<notin> processed_commits empty_progress \<and>
   final_segment (html_url (demo_commit ''a1'' ann)) = sha (demo_commit ''a1'' ann) \<and>
   processed_commits (merge_result empty_progress (Some (commit_info_of (demo_commit ''a1'' ann))))
     = {''a1''} \<and>
   process_commit demo_fetcher demo_env {''a1''} 1 Map.empty (demo_commit ''a1'' ann) =
     Some (Returned None, Map.empty)"
proof -
  have run: "process_commit demo_fetcher demo_env {} 0 Map.empty (demo_commit ''a1'' ann) =
     Some (Returned (Some (commit_info_of (demo_commit ''a1'' ann))), Map.empty)"
    by (simp add: process_commit_demo)
  from recorded_identifier_is_final_segment [OF run, of empty_progress 1 Map.empty] run
  show ?thesis
    by (simp add: empty_progress_def sha_demo_commit final_segment_demo_commit process_commit_skip)
qed

end
